theory Spec2Isabelle
  imports Main "HOL-Library.Word" "HOL-Library.Sublist"
begin

section \<open>The forensic tables of osquery over The Sleuth Kit\<close>

text \<open>
  A shallow embedding of \<^verbatim>\<open>osquery/tables/forensic/sleuthkit.cpp\<close>: the class
  \<^verbatim>\<open>DeviceHelper\<close> (\<^verbatim>\<open>open\<close>, \<^verbatim>\<open>partitions\<close>, \<^verbatim>\<open>generateFile\<close>,
  \<^verbatim>\<open>generateFiles\<close>, \<^verbatim>\<open>resetStack\<close>) and the two table generators
  \<^verbatim>\<open>genDevicePartitions\<close> and \<^verbatim>\<open>genDeviceFile\<close>.

  The Sleuth Kit (libtsk) is an external library. Its objects are modelled by what
  the source reads from them: an accessor \<^verbatim>\<open>x->getFoo()\<close> is a record field, an
  accessor or an \<^verbatim>\<open>open\<close> that may return \<^verbatim>\<open>nullptr\<close> or a non-zero status is an
  \<open>option\<close> (\<open>None\<close> is the null pointer or the failed open). Releasing a handle
  (\<^verbatim>\<open>delete\<close>) has no counterpart: the values are immutable.

  Isabelle reserves identifiers that end in an underscore, so the members
  \<^verbatim>\<open>opened_\<close>, \<^verbatim>\<open>opened_result_\<close>, \<^verbatim>\<open>image_\<close>, \<^verbatim>\<open>volume_\<close>, \<^verbatim>\<open>device_path_\<close>,
  \<^verbatim>\<open>stack_\<close> and \<^verbatim>\<open>loops_\<close> are the fields \<open>dh_opened\<close>, \<open>dh_opened_result\<close>,
  \<open>dh_image\<close>, \<open>dh_volume\<close>, \<open>dh_device_path\<close>, \<open>dh_stack\<close> and \<open>dh_loops\<close>; and the
  parameter \<^verbatim>\<open>partition\<close> is written \<open>ptn\<close> (\<open>partition\<close> is a list function of HOL).
\<close>

subsection \<open>Data of libtsk and of the query engine\<close>

type_synonym TSK_INUM_T = "64 word"

text \<open>A \<^verbatim>\<open>Row\<close> is a \<^verbatim>\<open>std::map<std::string, std::string>\<close>, \<^verbatim>\<open>QueryData\<close> a vector of rows.\<close>

type_synonym Row = "string \<rightharpoonup> string"

type_synonym QueryData = "Row list"

datatype TSK_FS_META_TYPE_ENUM =
    TSK_FS_META_TYPE_UNDEF
  | TSK_FS_META_TYPE_REG
  | TSK_FS_META_TYPE_DIR
  | TSK_FS_META_TYPE_FIFO
  | TSK_FS_META_TYPE_CHR
  | TSK_FS_META_TYPE_BLK
  | TSK_FS_META_TYPE_LNK
  | TSK_FS_META_TYPE_SHAD
  | TSK_FS_META_TYPE_SOCK
  | TSK_FS_META_TYPE_WHT
  | TSK_FS_META_TYPE_VIRT

text \<open>
  \<^verbatim>\<open>TskFsMeta\<close>. The field \<open>meta_name2\<close> is the list of parent names behind
  \<^verbatim>\<open>getName2(i)\<close>, which returns \<^verbatim>\<open>nullptr\<close> when the list has no element \<open>i\<close>
  (libtsk fills the list for some filesystem types only).
\<close>

record TskFsMeta =
  meta_getAddr :: TSK_INUM_T
  meta_getUid :: int
  meta_getGid :: int
  meta_getMode :: int
  meta_getSize :: int
  meta_getATime :: int
  meta_getMTime :: int
  meta_getCrTime :: int
  meta_getNLink :: int
  meta_getType :: TSK_FS_META_TYPE_ENUM
  meta_name2 :: "string list"

text \<open>
  \<^verbatim>\<open>TskFsFile\<close>: \<open>file_getFsInfo\<close> is the block size of the filesystem object behind
  \<^verbatim>\<open>getFsInfo()\<close> (the only thing read from it), \<open>file_getName\<close> the name behind
  \<^verbatim>\<open>getName()->getName()\<close>.
\<close>

record TskFsFile =
  file_getFsInfo :: "int option"
  file_getMeta :: "TskFsMeta option"
  file_getName :: "string option"

text \<open>
  An opened \<^verbatim>\<open>TskFsInfo\<close>. \<open>fs_dir_open\<close> is \<^verbatim>\<open>TskFsDir::open(fs, inode)\<close> followed by
  \<^verbatim>\<open>getSize\<close> and \<^verbatim>\<open>getFile(i)\<close>: the entries of the directory in its native order, an
  entry being \<open>None\<close> where \<^verbatim>\<open>getFile\<close> returns \<^verbatim>\<open>nullptr\<close>. \<open>fs_file_open_path\<close> and
  \<open>fs_file_open_inum\<close> are the two overloads of \<^verbatim>\<open>TskFsFile::open\<close>.
\<close>

record TskFsInfo =
  fs_getFsType :: int
  fs_getFlags :: int
  fs_getOffset :: int
  fs_getBlockSize :: int
  fs_getBlockCount :: int
  fs_getINumCount :: int
  fs_getRootINum :: TSK_INUM_T
  fs_dir_open :: "TSK_INUM_T \<Rightarrow> TskFsFile option list option"
  fs_file_open_path :: "string \<Rightarrow> TskFsFile option"
  fs_file_open_inum :: "TSK_INUM_T \<Rightarrow> TskFsFile option"

text \<open>
  A partition of a volume. \<open>part_fs_open\<close> is the outcome of
  \<^verbatim>\<open>fs->open(part, TSK_FS_TYPE_DETECT)\<close>: \<open>None\<close> when the status is not zero.
  The start and the length are \<^verbatim>\<open>TSK_DADDR_T\<close> (64 bits, unsigned), the flags a
  \<^verbatim>\<open>TSK_VS_PART_FLAG_ENUM\<close>, the block size of a volume an \<^verbatim>\<open>unsigned int\<close>.
\<close>

record TskVsPartInfo =
  part_getAddr :: nat
  part_getDesc :: "string option"
  part_getFlags :: "32 word"
  part_getStart :: "64 word"
  part_getLen :: "64 word"
  part_fs_open :: "TskFsInfo option"

record TskVsInfo =
  vs_getBlockSize :: "32 word"
  vs_getPart :: "TskVsPartInfo option list"

text \<open>
  An opened image; \<open>img_vs_open\<close> is the outcome of \<^verbatim>\<open>volume_->open(image, ...)\<close>.
  The library itself is the function from a device path to the outcome of
  \<^verbatim>\<open>image_->open(path, ...)\<close>, together with \<^verbatim>\<open>TskFsInfo::typeToName\<close>.
\<close>

record TskImgInfo =
  img_vs_open :: "TskVsInfo option"

record libtsk =
  tsk_img_open :: "string \<Rightarrow> TskImgInfo option"
  tsk_typeToName :: "int \<Rightarrow> string"

definition TSK_VS_PART_FLAG_UNALLOC :: "32 word" where
  "TSK_VS_PART_FLAG_UNALLOC = 0x02"

definition TSK_VS_PART_FLAG_META :: "32 word" where
  "TSK_VS_PART_FLAG_META = 0x04"

text \<open>The macro \<^verbatim>\<open>TSK_FS_ISDOT\<close> of libtsk: the name is \<^verbatim>\<open>.\<close> or \<^verbatim>\<open>..\<close>\<close>

definition TSK_FS_ISDOT :: "string \<Rightarrow> bool" where
  "TSK_FS_ISDOT x = (x = ''.'' \<or> x = ''..'')"

text \<open>
  \<^verbatim>\<open>DeviceHelper\<close>. The counter \<^verbatim>\<open>stack_\<close> is a \<^verbatim>\<open>size_t\<close>; it grows by one for every
  call of \<^verbatim>\<open>generateFiles\<close> and by nothing else, so it is modelled as a natural number
  (it would take \<open>2 ^ 64\<close> calls within one walk to wrap it).
\<close>

record DeviceHelper =
  dh_opened :: bool
  dh_opened_result :: bool
  dh_image :: "TskImgInfo option"
  dh_volume :: "TskVsInfo option"
  dh_device_path :: string
  dh_stack :: nat
  dh_loops :: "string set"

text \<open>The constructor and the member initialisers.\<close>

definition DeviceHelper_new :: "string \<Rightarrow> DeviceHelper" where
  "DeviceHelper_new device_path =
     \<lparr>dh_opened = False, dh_opened_result = False, dh_image = None, dh_volume = None,
      dh_device_path = device_path, dh_stack = 0, dh_loops = {}\<rparr>"

definition resetStack :: "DeviceHelper \<Rightarrow> DeviceHelper" where
  "resetStack dh = dh\<lparr>dh_stack := 0, dh_loops := {}\<rparr>"

subsection \<open>Text of numbers, paths\<close>

definition digit_char :: "nat \<Rightarrow> char" where
  "digit_char d = ''0123456789'' ! d"

fun dec_nat :: "nat \<Rightarrow> string" where
  "dec_nat n = (if n < 10 then [digit_char n] else dec_nat (n div 10) @ [digit_char (n mod 10)])"

declare dec_nat.simps [simp del]

text \<open>\<^verbatim>\<open>boost::lexical_cast<std::string>\<close> and \<^verbatim>\<open>std::to_string\<close> of an integer: its decimal text.\<close>

definition lexical_cast :: "int \<Rightarrow> string" where
  "lexical_cast i = (if i < 0 then CHR ''-'' # dec_nat (nat (- i)) else dec_nat (nat i))"

text \<open>
  Modelled from the spec: the macros \<^verbatim>\<open>BIGINT\<close>, \<^verbatim>\<open>INTEGER\<close> and \<^verbatim>\<open>TEXT\<close> of
  \<^verbatim>\<open>osquery/tables.h\<close> are not among the sources. Each turns its argument into the text
  stored in a row.
\<close>

definition BIGINT :: "int \<Rightarrow> string" where
  "BIGINT x = lexical_cast x"

definition INTEGER :: "int \<Rightarrow> string" where
  "INTEGER x = lexical_cast x"

definition TEXT :: "int \<Rightarrow> string" where
  "TEXT x = lexical_cast x"

text \<open>
  \<^verbatim>\<open>(fs::path(p) / n).string()\<close> of Boost.Filesystem on POSIX: an empty \<open>n\<close> leaves \<open>p\<close>
  as it is; otherwise a separator is put between the two unless \<open>p\<close> is empty, \<open>p\<close> ends
  in one or \<open>n\<close> starts with one.
\<close>

definition path_append :: "string \<Rightarrow> string \<Rightarrow> string" where
  "path_append p n =
     (if n = [] then p
      else if p \<noteq> [] \<and> last p \<noteq> CHR ''/'' \<and> hd n \<noteq> CHR ''/'' then p @ ''/'' @ n
      else p @ n)"

text \<open>
  \<^verbatim>\<open>fs::path(p).leaf().string()\<close>: the last element of the path (\<^verbatim>\<open>/\<close> for a path of
  separators only, \<^verbatim>\<open>.\<close> after a trailing separator).
\<close>

definition path_leaf :: "string \<Rightarrow> string" where
  "path_leaf p =
     (if p = [] then []
      else if filter (\<lambda>c. c \<noteq> CHR ''/'') p = [] then ''/''
      else if last p = CHR ''/'' then ''.''
      else rev (takeWhile (\<lambda>c. c \<noteq> CHR ''/'') (rev p)))"

subsection \<open>\<^verbatim>\<open>kTSKTypeNames\<close> and \<^verbatim>\<open>DeviceHelper::generateFile\<close>\<close>

definition kTSKTypeNames :: "TSK_FS_META_TYPE_ENUM \<rightharpoonup> string" where
  "kTSKTypeNames = map_of
     [(TSK_FS_META_TYPE_REG, ''regular''),
      (TSK_FS_META_TYPE_DIR, ''directory''),
      (TSK_FS_META_TYPE_LNK, ''symlink''),
      (TSK_FS_META_TYPE_BLK, ''block''),
      (TSK_FS_META_TYPE_CHR, ''character''),
      (TSK_FS_META_TYPE_FIFO, ''fifo''),
      (TSK_FS_META_TYPE_SOCK, ''socket'')]"

definition generateFile ::
  "DeviceHelper \<Rightarrow> string \<Rightarrow> TskFsFile \<Rightarrow> string \<Rightarrow> QueryData \<Rightarrow> QueryData" where
  "generateFile dh ptn file path results =
     (let r = [''device'' \<mapsto> dh_device_path dh, ''partition'' \<mapsto> ptn,
               ''path'' \<mapsto> path, ''filename'' \<mapsto> path_leaf path];
          r = (case file_getFsInfo file of
                 None \<Rightarrow> r
               | Some block_size \<Rightarrow> r(''block_size'' \<mapsto> BIGINT block_size));
          r = (case file_getMeta file of
                 None \<Rightarrow> r
               | Some meta \<Rightarrow>
                   r(''inode'' \<mapsto> BIGINT (uint (meta_getAddr meta)),
                     ''uid'' \<mapsto> BIGINT (meta_getUid meta),
                     ''gid'' \<mapsto> BIGINT (meta_getGid meta),
                     ''mode'' \<mapsto> TEXT (meta_getMode meta),
                     ''size'' \<mapsto> BIGINT (meta_getSize meta),
                     ''atime'' \<mapsto> BIGINT (meta_getATime meta),
                     ''mtime'' \<mapsto> BIGINT (meta_getMTime meta),
                     ''ctime'' \<mapsto> BIGINT (meta_getCrTime meta),
                     ''hard_links'' \<mapsto> INTEGER (meta_getNLink meta),
                     ''type'' \<mapsto> (case kTSKTypeNames (meta_getType meta) of
                                     Some name \<Rightarrow> name
                                   | None \<Rightarrow> ''unknown'')))
      in results @ [r])"

subsection \<open>\<^verbatim>\<open>DeviceHelper::generateFiles\<close>\<close>

text \<open>
  The local \<^verbatim>\<open>std::map<TSK_INUM_T, std::string> additional\<close> is the list of its pairs in
  the order of iteration, ascending in the key; \<open>map_assign k v m\<close> is \<^verbatim>\<open>m[k] = v\<close>.
\<close>

type_synonym additional = "(TSK_INUM_T \<times> string) list"

fun map_assign :: "'k::linorder \<Rightarrow> 'v \<Rightarrow> ('k \<times> 'v) list \<Rightarrow> ('k \<times> 'v) list" where
  "map_assign k v [] = [(k, v)]"
| "map_assign k v ((k', v') # m) =
     (if k < k' then (k, v) # (k', v') # m
      else if k = k' then (k, v) # m
      else (k', v') # map_assign k v m)"

text \<open>
  The body of the loop over the entries of a directory (\<^verbatim>\<open>for (i < dir->getSize())\<close>),
  on the pair of \<^verbatim>\<open>results\<close> and \<^verbatim>\<open>additional\<close>; \<open>dir_entries\<close> is the loop. Of the
  helper the loop reads \<^verbatim>\<open>device_path_\<close> only (in \<open>generateFile\<close>), which a walk never
  changes.
\<close>

definition dir_entry ::
  "DeviceHelper \<Rightarrow> string \<Rightarrow> string \<Rightarrow> TskFsFile option \<Rightarrow>
     QueryData \<times> additional \<Rightarrow> QueryData \<times> additional" where
  "dir_entry dh ptn path f acc =
     (case f of
        None \<Rightarrow> acc
      | Some file \<Rightarrow>
          (case file_getMeta file of
             None \<Rightarrow> acc
           | Some meta \<Rightarrow>
               (let leaf = (case file_getName file of
                              None \<Rightarrow> []
                            | Some name \<Rightarrow> path_append path name)
                in if meta_getType meta = TSK_FS_META_TYPE_REG
                   then (generateFile dh ptn file leaf (fst acc), snd acc)
                   else if meta_getType meta = TSK_FS_META_TYPE_DIR
                   then (case file_getName file of
                           None \<Rightarrow> acc
                         | Some name \<Rightarrow>
                             if \<not> TSK_FS_ISDOT name
                             then (fst acc, map_assign (meta_getAddr meta) leaf (snd acc))
                             else acc)
                   else acc)))"

definition dir_entries ::
  "DeviceHelper \<Rightarrow> string \<Rightarrow> string \<Rightarrow> TskFsFile option list \<Rightarrow> QueryData \<Rightarrow>
     QueryData \<times> additional" where
  "dir_entries dh ptn path dir results = fold (dir_entry dh ptn path) dir (results, [])"

text \<open>
  The state a walk changes: the helper (\<^verbatim>\<open>stack_\<close>, \<^verbatim>\<open>loops_\<close>) and \<^verbatim>\<open>results\<close>.
  \<open>loops_insert\<close> is \<^verbatim>\<open>loops_.insert(dir.second)\<close>.
\<close>

type_synonym walk_state = "DeviceHelper \<times> QueryData"

definition loops_insert :: "string \<Rightarrow> walk_state \<Rightarrow> walk_state" where
  "loops_insert leaf st = ((fst st)\<lparr>dh_loops := insert leaf (dh_loops (fst st))\<rparr>, snd st)"

text \<open>
  \<open>generateFiles\<close> is the member function, \<open>recurse\<close> its last loop
  (\<^verbatim>\<open>for (const auto& dir : additional)\<close>). The test \<^verbatim>\<open>stack_++ > 1024\<close> compares the
  value before the increment; the counter is incremented on both branches.
\<close>

function generateFiles ::
    "string \<Rightarrow> TskFsInfo \<Rightarrow> walk_state \<Rightarrow> string \<Rightarrow> TSK_INUM_T \<Rightarrow> walk_state"
  and recurse ::
    "string \<Rightarrow> TskFsInfo \<Rightarrow> walk_state \<Rightarrow> additional \<Rightarrow> walk_state"
where
  "generateFiles ptn fs (dh, results) path inode =
     (if 1024 < dh_stack dh then (dh\<lparr>dh_stack := dh_stack dh + 1\<rparr>, results)
      else
        (case fs_dir_open fs (if inode = 0 then fs_getRootINum fs else inode) of
           None \<Rightarrow> (dh\<lparr>dh_stack := dh_stack dh + 1\<rparr>, results)
         | Some dir \<Rightarrow>
             recurse ptn fs
               (dh\<lparr>dh_stack := dh_stack dh + 1\<rparr>, fst (dir_entries dh ptn path dir results))
               (snd (dir_entries dh ptn path dir results))))"
| "recurse ptn fs st [] = st"
| "recurse ptn fs st ((ino, leaf) # rest) =
     (if leaf \<in> dh_loops (fst st) then recurse ptn fs st rest
      else recurse ptn fs (loops_insert leaf (generateFiles ptn fs st leaf ino)) rest)"
  by pat_completeness auto

text \<open>
  Termination. The inner loop continues from the state its recursive call returns, so
  the measure (what is left of the counter up to the ceiling, then the entries left in
  the loop) needs that a call never lowers the counter, proved first on the domain.
\<close>

lemma stack_partial:
  "generateFiles_recurse_dom (Inl (ptn, fs, st, path, inode)) \<Longrightarrow>
     dh_stack (fst st) < dh_stack (fst (generateFiles ptn fs st path inode))"
  "generateFiles_recurse_dom (Inr (ptn, fs, st, pending)) \<Longrightarrow>
     dh_stack (fst st) \<le> dh_stack (fst (recurse ptn fs st pending))"
proof (induction ptn fs st path inode and ptn fs st pending
    rule: generateFiles_recurse.pinduct)
  case (1 ptn fs dh results path inode)
  then show ?case
    by (auto simp: generateFiles.psimps split: option.splits)
next
  case (2 ptn fs st)
  then show ?case by (simp add: recurse.psimps)
next
  case (3 ptn fs st ino leaf rest)
  then show ?case
    by (auto simp: recurse.psimps loops_insert_def)
qed

lemma generateFiles_total: "All generateFiles_recurse_dom"
proof (relation "measures
    [\<lambda>x. case x of Inl (ptn, fs, st, path, inode) \<Rightarrow> 1026 - dh_stack (fst st)
              | Inr (ptn, fs, st, pending) \<Rightarrow> 1026 - dh_stack (fst st),
     \<lambda>x. case x of Inl _ \<Rightarrow> 0 | Inr (ptn, fs, st, pending) \<Rightarrow> Suc (length pending)]",
    goal_cases)
  case 1
  then show ?case by simp
next
  case 2
  then show ?case by auto
next
  case 3
  then show ?case by auto
next
  case 4
  then show ?case by auto
next
  case (5 ptn fs st ino leaf rest)
  then show ?case using stack_partial(1)[OF 5(2)] by (auto simp: loops_insert_def)
qed

termination generateFiles
  by (rule generateFiles_total)

declare generateFiles.simps [simp del]

lemma stack_mono:
  "dh_stack (fst st) < dh_stack (fst (generateFiles ptn fs st path inode))"
  "dh_stack (fst st) \<le> dh_stack (fst (recurse ptn fs st pending))"
  using generateFiles_total by (auto intro: stack_partial)

lemma loops_mono:
  "dh_loops (fst st) \<subseteq> dh_loops (fst (generateFiles ptn fs st path inode))"
  "dh_loops (fst st) \<subseteq> dh_loops (fst (recurse ptn fs st pending))"
proof (induction ptn fs st path inode and ptn fs st pending rule: generateFiles_recurse.induct)
  case (1 ptn fs dh results path inode)
  then show ?case
    by (auto simp: generateFiles.simps split: option.splits)
next
  case (2 ptn fs st)
  then show ?case by simp
next
  case (3 ptn fs st ino leaf rest)
  then show ?case
    by (auto simp: loops_insert_def)
qed

subsection \<open>\<^verbatim>\<open>DeviceHelper::open\<close> and \<^verbatim>\<open>DeviceHelper::partitions\<close>\<close>

unbundle bit_operations_syntax

text \<open>
  \<open>DeviceHelper_open\<close> is the private member \<^verbatim>\<open>open\<close>, with the library as an argument:
  opening the image and the volume are the only places where it is consulted.
\<close>

definition DeviceHelper_open :: "libtsk \<Rightarrow> DeviceHelper \<Rightarrow> bool \<times> DeviceHelper" where
  "DeviceHelper_open tsk dh =
     (if dh_opened dh then (dh_opened_result dh, dh)
      else
        (case tsk_img_open tsk (dh_device_path dh) of
           None \<Rightarrow> (False, dh\<lparr>dh_opened := True, dh_opened_result := False\<rparr>)
         | Some img \<Rightarrow>
             (case img_vs_open img of
                None \<Rightarrow>
                  (False, dh\<lparr>dh_opened := True, dh_image := Some img,
                             dh_opened_result := False\<rparr>)
              | Some vol \<Rightarrow>
                  (True, dh\<lparr>dh_opened := True, dh_image := Some img,
                            dh_volume := Some vol, dh_opened_result := True\<rparr>))))"

text \<open>
  \<^verbatim>\<open>partitions(predicate)\<close> calls the predicate on the partitions of the volume that are not
  \<^verbatim>\<open>nullptr\<close>, in the order of their index, when \<^verbatim>\<open>open\<close> succeeds. The predicates of both
  tables leave the volume as it is, so \<open>partitions\<close> returns the helper after \<^verbatim>\<open>open\<close> and
  the list of these partitions, and the table applies its predicate to the list.
\<close>

definition partitions :: "libtsk \<Rightarrow> DeviceHelper \<Rightarrow> DeviceHelper \<times> TskVsPartInfo list" where
  "partitions tsk dh =
     (case DeviceHelper_open tsk dh of
        (ok, dh') \<Rightarrow>
          if ok
          then (dh', List.map_filter (\<lambda>part. part)
                       (case dh_volume dh' of None \<Rightarrow> [] | Some vol \<Rightarrow> vs_getPart vol))
          else (dh', []))"

subsection \<open>\<^verbatim>\<open>genDevicePartitions\<close>\<close>

text \<open>
  \<open>partition_row\<close> is the row the predicate of \<^verbatim>\<open>genDevicePartitions\<close> builds for a
  partition. \<^verbatim>\<open>part->getStart() * dh.getVolume()->getBlockSize()\<close> multiplies a 64-bit
  unsigned integer by an \<^verbatim>\<open>unsigned int\<close>: a 64-bit unsigned product.
  \<open>QueryContext\<close> holds the values \<^verbatim>\<open>context.constraints[column].getAll(EQUALS)\<close> of the four
  columns the tables read, each a \<^verbatim>\<open>std::set<std::string>\<close>, as the list of its elements
  in the order of iteration.
\<close>

definition getVolume_getBlockSize :: "DeviceHelper \<Rightarrow> 32 word" where
  "getVolume_getBlockSize dh =
     (case dh_volume dh of None \<Rightarrow> 0 | Some vol \<Rightarrow> vs_getBlockSize vol)"

definition to_string :: "nat \<Rightarrow> string" where
  "to_string n = dec_nat n"

definition partition_row :: "libtsk \<Rightarrow> string \<Rightarrow> DeviceHelper \<Rightarrow> TskVsPartInfo \<Rightarrow> Row" where
  "partition_row tsk dev dh part =
     (let r = [''device'' \<mapsto> dev, ''partition'' \<mapsto> to_string (part_getAddr part)];
          r = (case part_getDesc part of None \<Rightarrow> r | Some desc \<Rightarrow> r(''label'' \<mapsto> desc));
          r = r(''flags'' \<mapsto> ''0'');
          r = (if part_getFlags part AND TSK_VS_PART_FLAG_META \<noteq> 0
               then r(''type'' \<mapsto> ''meta'')
               else if part_getFlags part AND TSK_VS_PART_FLAG_UNALLOC \<noteq> 0
               then r(''type'' \<mapsto> ''unallocated'')
               else r(''type'' \<mapsto> ''normal''))
      in case part_fs_open part of
           None \<Rightarrow>
             r(''offset'' \<mapsto> BIGINT (uint (part_getStart part * ucast (getVolume_getBlockSize dh))),
               ''blocks_size'' \<mapsto> BIGINT (uint (getVolume_getBlockSize dh)),
               ''blocks'' \<mapsto> BIGINT (uint (part_getLen part)),
               ''inodes'' \<mapsto> ''-1'',
               ''flags'' \<mapsto> INTEGER (uint (part_getFlags part)))
         | Some fs \<Rightarrow>
             r(''type'' \<mapsto> tsk_typeToName tsk (fs_getFsType fs),
               ''flags'' \<mapsto> INTEGER (fs_getFlags fs),
               ''offset'' \<mapsto> BIGINT (fs_getOffset fs),
               ''blocks_size'' \<mapsto> BIGINT (fs_getBlockSize fs),
               ''blocks'' \<mapsto> BIGINT (fs_getBlockCount fs),
               ''inodes'' \<mapsto> BIGINT (fs_getINumCount fs)))"

record QueryContext =
  constraints_device :: "string list"
  constraints_partition :: "string list"
  constraints_path :: "string list"
  constraints_inode :: "string list"

definition genDevicePartitions :: "libtsk \<Rightarrow> QueryContext \<Rightarrow> QueryData" where
  "genDevicePartitions tsk context =
     concat (map (\<lambda>dev. case partitions tsk (DeviceHelper_new dev) of
                           (dh, parts) \<Rightarrow> map (partition_row tsk dev dh) parts)
                 (constraints_device context))"

subsection \<open>\<^verbatim>\<open>genDeviceFile\<close>\<close>

text \<open>
  Modelled from the spec: \<^verbatim>\<open>safeStrtol\<close> of \<^verbatim>\<open>osquery/core/conversions.h\<close> is not among
  the sources. \<open>safeStrtol rep base\<close> parses the whole of \<open>rep\<close> as an integer to the base
  (an optional sign, then digits) and returns the status and the value left in the output
  argument: the number when the status is success, 0 (the value \<^verbatim>\<open>meta\<close> is initialised
  with) when \<open>rep\<close> is not a number or does not fit a \<^verbatim>\<open>long\<close>.
\<close>

definition digit_value :: "nat \<Rightarrow> char \<Rightarrow> nat option" where
  "digit_value base c =
     (let n = (of_char c :: nat)
      in if 48 \<le> n \<and> n \<le> 57 \<and> n - 48 < base then Some (n - 48) else None)"

fun digits_value :: "nat \<Rightarrow> nat \<Rightarrow> string \<Rightarrow> nat option" where
  "digits_value base acc [] = Some acc"
| "digits_value base acc (c # cs) =
     (case digit_value base c of
        None \<Rightarrow> None
      | Some d \<Rightarrow> digits_value base (base * acc + d) cs)"

definition LONG_MAX :: int where
  "LONG_MAX = 2 ^ 63 - 1"

definition LONG_MIN :: int where
  "LONG_MIN = - (2 ^ 63)"

definition safeStrtol :: "string \<Rightarrow> nat \<Rightarrow> bool \<times> int" where
  "safeStrtol rep base =
     (let negative = (rep \<noteq> [] \<and> hd rep = CHR ''-'');
          digits = (if rep \<noteq> [] \<and> (hd rep = CHR ''-'' \<or> hd rep = CHR ''+'') then tl rep else rep)
      in case (if digits = [] then None else digits_value base 0 digits) of
           None \<Rightarrow> (False, 0)
         | Some n \<Rightarrow>
             (let out = (if negative then - int n else int n)
              in if out < LONG_MIN \<or> LONG_MAX < out then (False, 0) else (True, out)))"

text \<open>
  What the source does beyond returning rows: dereferencing a null pointer. The only
  place is \<^verbatim>\<open>meta->getName2(0)->getName()\<close>, where the result of \<^verbatim>\<open>getName2\<close> is used
  unchecked.
\<close>

datatype fault = NullPointerDereference

definition getName2 :: "TskFsMeta \<Rightarrow> nat \<Rightarrow> string option" where
  "getName2 meta i = (if i < length (meta_name2 meta) then Some (meta_name2 meta ! i) else None)"

fun fold_fault :: "('a \<Rightarrow> 's \<Rightarrow> fault + 's) \<Rightarrow> 'a list \<Rightarrow> 's \<Rightarrow> fault + 's" where
  "fold_fault f [] s = Inr s"
| "fold_fault f (x # xs) s = (case f x s of Inl e \<Rightarrow> Inl e | Inr s' \<Rightarrow> fold_fault f xs s')"

text \<open>
  The bodies of the loops over \<^verbatim>\<open>paths\<close> and over \<^verbatim>\<open>inodes\<close>. In \<open>lookup_inode\<close> the status
  of \<^verbatim>\<open>safeStrtol\<close> is dropped, as in the source, and \<^verbatim>\<open>static_cast<TSK_INUM_T>\<close> is
  \<open>word_of_int\<close>.
\<close>

definition lookup_path ::
  "DeviceHelper \<Rightarrow> string \<Rightarrow> TskFsInfo \<Rightarrow> string \<Rightarrow> QueryData \<Rightarrow> QueryData" where
  "lookup_path dh address fs path results =
     (case fs_file_open_path fs path of
        None \<Rightarrow> results
      | Some file \<Rightarrow> generateFile dh address file path results)"

definition lookup_inode ::
  "DeviceHelper \<Rightarrow> string \<Rightarrow> TskFsInfo \<Rightarrow> string \<Rightarrow> QueryData \<Rightarrow> fault + QueryData" where
  "lookup_inode dh address fs inode results =
     (let meta = snd (safeStrtol inode 10)
      in case fs_file_open_inum fs (word_of_int meta) of
           None \<Rightarrow> Inr results
         | Some file \<Rightarrow>
             (case file_getMeta file of
                None \<Rightarrow> Inr (generateFile dh address file [] results)
              | Some meta \<Rightarrow>
                  (case getName2 meta 0 of
                     None \<Rightarrow> Inl NullPointerDereference
                   | Some name \<Rightarrow> Inr (generateFile dh address file name results))))"

text \<open>
  The predicate of \<^verbatim>\<open>genDeviceFile\<close> on one partition (\<open>requested\<close> is \<^verbatim>\<open>*parts.begin()\<close>),
  the body of the loop over the devices, and the table. \<open>logged\<close> holds the lines written
  with \<^verbatim>\<open>TLOG\<close>.
\<close>

definition genDeviceFile_partition ::
  "string \<Rightarrow> string list \<Rightarrow> string list \<Rightarrow> TskVsPartInfo \<Rightarrow> walk_state \<Rightarrow> fault + walk_state" where
  "genDeviceFile_partition requested paths inodes part st =
     (let address = to_string (part_getAddr part)
      in if address \<noteq> requested then Inr st
         else
           (case part_fs_open part of
              None \<Rightarrow> Inr st
            | Some fs \<Rightarrow>
                (let st = (if inodes = [] \<and> paths = []
                           then (resetStack (fst (generateFiles address fs st ''/'' 0)),
                                 snd (generateFiles address fs st ''/'' 0))
                           else st);
                     results = fold (lookup_path (fst st) address fs) paths (snd st)
                 in case fold_fault (lookup_inode (fst st) address fs) inodes results of
                      Inl e \<Rightarrow> Inl e
                    | Inr results \<Rightarrow> Inr (fst st, results))))"

definition genDeviceFile_device ::
  "libtsk \<Rightarrow> string \<Rightarrow> string list \<Rightarrow> string list \<Rightarrow> string \<Rightarrow> QueryData \<Rightarrow> fault + QueryData" where
  "genDeviceFile_device tsk requested paths inodes dev results =
     (case partitions tsk (DeviceHelper_new dev) of
        (dh, parts) \<Rightarrow>
          (case fold_fault (genDeviceFile_partition requested paths inodes) parts (dh, results) of
             Inl e \<Rightarrow> Inl e
           | Inr st \<Rightarrow> Inr (snd st)))"

record QueryOutcome =
  logged :: "string list"
  rows :: QueryData

definition genDeviceFile :: "libtsk \<Rightarrow> QueryContext \<Rightarrow> fault + QueryOutcome" where
  "genDeviceFile tsk context =
     (let devices = constraints_device context;
          parts = constraints_partition context;
          paths = constraints_path context;
          inodes = constraints_inode context
      in if devices = [] \<or> length parts \<noteq> 1
         then Inr \<lparr>logged = [''Device files require at least one device and a single partition''],
                   rows = []\<rparr>
         else
           (case fold_fault (genDeviceFile_device tsk (hd parts) paths inodes) devices [] of
              Inl e \<Rightarrow> Inl e
            | Inr results \<Rightarrow> Inr \<lparr>logged = [], rows = results\<rparr>))"

section \<open>Notions the properties are stated with\<close>

subsection \<open>The calls of a walk\<close>

text \<open>
  A call of \<open>generateFiles\<close> is the state it is entered with, its path and its inode.
  \<open>recurse_calls\<close> lists the calls the last loop makes, in the order it makes them (it
  follows \<open>recurse\<close> equation by equation); \<open>direct_calls\<close> are the calls one call of
  \<open>generateFiles\<close> makes itself; \<open>walk_calls ptn fs d c\<close> lists every call made during the
  call \<open>c\<close>, itself first, in the order of execution, each with its nesting depth
  (\<open>d\<close> for \<open>c\<close>, one more for each level of recursion).
\<close>

type_synonym call = "walk_state \<times> string \<times> TSK_INUM_T"

definition call_stack :: "call \<Rightarrow> nat" where
  "call_stack c = dh_stack (fst (fst c))"

definition call_path :: "call \<Rightarrow> string" where
  "call_path c = fst (snd c)"

definition call_inode :: "call \<Rightarrow> TSK_INUM_T" where
  "call_inode c = snd (snd c)"

text \<open>The call leaves at the test of the counter, opening no directory.\<close>

definition returns_immediately :: "call \<Rightarrow> bool" where
  "returns_immediately c = (1024 < call_stack c)"

fun recurse_calls :: "string \<Rightarrow> TskFsInfo \<Rightarrow> walk_state \<Rightarrow> additional \<Rightarrow> call list" where
  "recurse_calls ptn fs st [] = []"
| "recurse_calls ptn fs st ((ino, leaf) # rest) =
     (if leaf \<in> dh_loops (fst st) then recurse_calls ptn fs st rest
      else (st, leaf, ino) #
           recurse_calls ptn fs (loops_insert leaf (generateFiles ptn fs st leaf ino)) rest)"

definition direct_calls :: "string \<Rightarrow> TskFsInfo \<Rightarrow> call \<Rightarrow> call list" where
  "direct_calls ptn fs c =
     (case c of ((dh, results), path, inode) \<Rightarrow>
        if 1024 < dh_stack dh then []
        else
          (case fs_dir_open fs (if inode = 0 then fs_getRootINum fs else inode) of
             None \<Rightarrow> []
           | Some dir \<Rightarrow>
               recurse_calls ptn fs
                 (dh\<lparr>dh_stack := dh_stack dh + 1\<rparr>, fst (dir_entries dh ptn path dir results))
                 (snd (dir_entries dh ptn path dir results))))"

lemma recurse_calls_stack:
  "c \<in> set (recurse_calls ptn fs st pending) \<Longrightarrow> dh_stack (fst st) \<le> call_stack c"
proof (induction pending arbitrary: st)
  case Nil
  then show ?case by simp
next
  case (Cons a pending)
  obtain ino leaf where a: "a = (ino, leaf)" by (cases a)
  show ?case
  proof (cases "leaf \<in> dh_loops (fst st)")
    case True
    with Cons a show ?thesis by simp
  next
    case False
    let ?st' = "loops_insert leaf (generateFiles ptn fs st leaf ino)"
    from False Cons.prems a
    have "c = (st, leaf, ino) \<or> c \<in> set (recurse_calls ptn fs ?st' pending)"
      by simp
    then show ?thesis
    proof
      assume "c = (st, leaf, ino)"
      then show ?thesis by (simp add: call_stack_def)
    next
      assume "c \<in> set (recurse_calls ptn fs ?st' pending)"
      from Cons.IH[OF this] stack_mono(1)[of st ptn fs leaf ino]
      show ?thesis by (simp add: loops_insert_def)
    qed
  qed
qed

lemma direct_calls_stack:
  "c' \<in> set (direct_calls ptn fs c) \<Longrightarrow> call_stack c < call_stack c' \<and> call_stack c \<le> 1024"
  by (cases c) (auto simp: direct_calls_def call_stack_def split: if_splits option.splits
      dest!: recurse_calls_stack)

function walk_calls :: "string \<Rightarrow> TskFsInfo \<Rightarrow> nat \<Rightarrow> call \<Rightarrow> (nat \<times> call) list" where
  "walk_calls ptn fs d c =
     (d, c) # concat (map (walk_calls ptn fs (Suc d)) (direct_calls ptn fs c))"
  by pat_completeness auto

termination
  by (relation "measure (\<lambda>(ptn, fs, d, c). 1026 - call_stack c)")
     (auto dest!: direct_calls_stack)

declare walk_calls.simps [simp del]

text \<open>The calls made, at all depths, during the last loop of a call.\<close>

definition recurse_walk_calls ::
  "string \<Rightarrow> TskFsInfo \<Rightarrow> nat \<Rightarrow> walk_state \<Rightarrow> additional \<Rightarrow> (nat \<times> call) list" where
  "recurse_walk_calls ptn fs d st pending =
     concat (map (walk_calls ptn fs d) (recurse_calls ptn fs st pending))"

lemma recurse_walk_calls_Nil [simp]: "recurse_walk_calls ptn fs d st [] = []"
  by (simp add: recurse_walk_calls_def)

lemma recurse_walk_calls_Cons:
  "recurse_walk_calls ptn fs d st ((ino, leaf) # rest) =
     (if leaf \<in> dh_loops (fst st) then recurse_walk_calls ptn fs d st rest
      else walk_calls ptn fs d (st, leaf, ino) @
           recurse_walk_calls ptn fs d
             (loops_insert leaf (generateFiles ptn fs st leaf ino)) rest)"
  by (simp add: recurse_walk_calls_def)

lemma walk_calls_unfold:
  "walk_calls ptn fs d ((dh, results), path, inode) =
     (d, ((dh, results), path, inode)) #
     (if 1024 < dh_stack dh then []
      else
        (case fs_dir_open fs (if inode = 0 then fs_getRootINum fs else inode) of
           None \<Rightarrow> []
         | Some dir \<Rightarrow>
             recurse_walk_calls ptn fs (Suc d)
               (dh\<lparr>dh_stack := dh_stack dh + 1\<rparr>, fst (dir_entries dh ptn path dir results))
               (snd (dir_entries dh ptn path dir results))))"
  by (subst walk_calls.simps)
     (simp add: direct_calls_def recurse_walk_calls_def split: option.splits)

subsection \<open>The entries of a directory\<close>

text \<open>
  The words of the claim on the order: \<open>regular_files\<close> are the entries of a directory
  that yield a record (the file and its metadata are there and the type is regular), in
  the native order; \<open>leaf_path\<close> is the path such an entry is recorded under;
  \<open>subdir_addrs\<close> are the inode addresses of the entries that are put among the pending
  subdirectories (a directory with a name other than \<^verbatim>\<open>.\<close> and \<^verbatim>\<open>..\<close>).
\<close>

definition is_regular :: "TskFsFile \<Rightarrow> bool" where
  "is_regular file =
     (case file_getMeta file of
        None \<Rightarrow> False
      | Some meta \<Rightarrow> meta_getType meta = TSK_FS_META_TYPE_REG)"

definition leaf_path :: "string \<Rightarrow> TskFsFile \<Rightarrow> string" where
  "leaf_path path file =
     (case file_getName file of None \<Rightarrow> [] | Some name \<Rightarrow> path_append path name)"

definition regular_files :: "TskFsFile option list \<Rightarrow> TskFsFile list" where
  "regular_files dir = [file. Some file \<leftarrow> dir, is_regular file]"

definition subdir_addr :: "TskFsFile \<Rightarrow> TSK_INUM_T option" where
  "subdir_addr file =
     (case file_getMeta file of
        None \<Rightarrow> None
      | Some meta \<Rightarrow>
          (case file_getName file of
             None \<Rightarrow> None
           | Some name \<Rightarrow>
               if meta_getType meta = TSK_FS_META_TYPE_DIR \<and> \<not> TSK_FS_ISDOT name
               then Some (meta_getAddr meta) else None))"


text \<open>
  No entry of any directory of the filesystem has the empty name. The path of an entry
  with the empty name is the path of the directory that holds it.
\<close>

definition no_empty_names :: "TskFsInfo \<Rightarrow> bool" where
  "no_empty_names fs =
     (\<forall>ino dir file. fs_dir_open fs ino = Some dir \<longrightarrow> Some file \<in> set dir \<longrightarrow>
        file_getName file \<noteq> Some [])"

text \<open>The values of one column in a list of rows.\<close>

definition column :: "string \<Rightarrow> QueryData \<Rightarrow> string option list" where
  "column k results = map (\<lambda>r. r k) results"

text \<open>
  The paths \<open>D\<close> descended into during a call with the path \<open>path\<close>, entered with the
  visited-set \<open>before\<close> and left with \<open>after\<close>: no path twice, none visited before, all
  visited after, all below \<open>path\<close>.
\<close>

definition fresh_descents :: "string \<Rightarrow> string set \<Rightarrow> string set \<Rightarrow> string list \<Rightarrow> bool" where
  "fresh_descents path before after D =
     (distinct D \<and> set D \<inter> before = {} \<and> set D \<subseteq> after \<and> (\<forall>p \<in> set D. strict_prefix path p))"

section \<open>Filesystems and devices for examples\<close>

text \<open>An entry with a type, an inode and a name; a filesystem given by the entries of
  its directories, with the root at inode 2.\<close>

definition dir_ent :: "TSK_FS_META_TYPE_ENUM \<Rightarrow> TSK_INUM_T \<Rightarrow> string \<Rightarrow> TskFsFile" where
  "dir_ent t ino name =
     \<lparr>file_getFsInfo = Some 4096,
      file_getMeta = Some \<lparr>meta_getAddr = ino, meta_getUid = 0, meta_getGid = 0,
        meta_getMode = 0, meta_getSize = 0, meta_getATime = 0, meta_getMTime = 0,
        meta_getCrTime = 0, meta_getNLink = 1, meta_getType = t, meta_name2 = []\<rparr>,
      file_getName = Some name\<rparr>"

definition fs_of_dirs :: "(TSK_INUM_T \<times> TskFsFile option list) list \<Rightarrow> TskFsInfo" where
  "fs_of_dirs dirs =
     \<lparr>fs_getFsType = 0, fs_getFlags = 0, fs_getOffset = 0, fs_getBlockSize = 4096,
      fs_getBlockCount = 0, fs_getINumCount = 0, fs_getRootINum = 2,
      fs_dir_open = map_of dirs,
      fs_file_open_path = (\<lambda>p. None),
      fs_file_open_inum = (\<lambda>i. None)\<rparr>"

text \<open>
  A filesystem of 2000 directories nested in one another below the root: the directory
  at inode \<open>i\<close> holds the one directory \<^verbatim>\<open>d\<close> at inode \<open>i + 1\<close>, from the root (inode 2) down
  to inode 2001; the directory at inode 2002 is empty.
\<close>

definition chain_entry :: "TSK_INUM_T \<Rightarrow> TskFsFile" where
  "chain_entry ino =
     \<lparr>file_getFsInfo = None,
      file_getMeta = Some \<lparr>meta_getAddr = ino, meta_getUid = 0, meta_getGid = 0, meta_getMode = 0,
        meta_getSize = 0, meta_getATime = 0, meta_getMTime = 0, meta_getCrTime = 0,
        meta_getNLink = 1, meta_getType = TSK_FS_META_TYPE_DIR, meta_name2 = []\<rparr>,
      file_getName = Some ''d''\<rparr>"

definition chain_fs :: TskFsInfo where
  "chain_fs =
     \<lparr>fs_getFsType = 0, fs_getFlags = 0, fs_getOffset = 0, fs_getBlockSize = 512,
      fs_getBlockCount = 0, fs_getINumCount = 0, fs_getRootINum = 2,
      fs_dir_open = (\<lambda>ino. if unat ino < 2002 then Some [Some (chain_entry (ino + 1))] else Some []),
      fs_file_open_path = (\<lambda>p. None),
      fs_file_open_inum = (\<lambda>i. None)\<rparr>"

text \<open>A directory with two regular files and two subdirectories, and a filesystem with
  this directory as its root.\<close>

definition demo_dir :: "TskFsFile option list" where
  "demo_dir =
     [Some (dir_ent TSK_FS_META_TYPE_REG 9 ''x''), Some (dir_ent TSK_FS_META_TYPE_DIR 7 ''b''),
      Some (dir_ent TSK_FS_META_TYPE_REG 3 ''y''), Some (dir_ent TSK_FS_META_TYPE_DIR 5 ''a'')]"

definition demo_fs :: TskFsInfo where
  "demo_fs = fs_of_dirs [(2, demo_dir), (5, []), (7, [])]"

text \<open>
  A filesystem whose root holds a directory with the empty name (inode 5), which holds
  another one (inode 6).
\<close>

definition loop_fs :: TskFsInfo where
  "loop_fs = fs_of_dirs
     [(2, [Some (dir_ent TSK_FS_META_TYPE_DIR 5 [])]),
      (5, [Some (dir_ent TSK_FS_META_TYPE_DIR 6 [])]),
      (6, [])]"

text \<open>
  A filesystem whose root holds \<open>n\<close> directories (inodes 3 and up), each holding one
  regular file.
\<close>

definition wide_name :: "nat \<Rightarrow> string" where
  "wide_name k = replicate (Suc k) CHR ''a''"

definition wide_inode :: "nat \<Rightarrow> TSK_INUM_T" where
  "wide_inode k = of_nat (k + 3)"

definition wide_root :: "nat \<Rightarrow> TskFsFile option list" where
  "wide_root n =
     map (\<lambda>k. Some (dir_ent TSK_FS_META_TYPE_DIR (wide_inode k) (wide_name k))) [0..<n]"

definition wide_fs :: "nat \<Rightarrow> TskFsInfo" where
  "wide_fs n =
     \<lparr>fs_getFsType = 0, fs_getFlags = 0, fs_getOffset = 0, fs_getBlockSize = 4096,
      fs_getBlockCount = 0, fs_getINumCount = 0, fs_getRootINum = 2,
      fs_dir_open = (\<lambda>ino. if ino = 2 then Some (wide_root n)
                           else Some [Some (dir_ent TSK_FS_META_TYPE_REG 1 ''f'')]),
      fs_file_open_path = (\<lambda>p. None),
      fs_file_open_inum = (\<lambda>i. None)\<rparr>"

definition wide_pending :: "nat \<Rightarrow> nat \<Rightarrow> additional" where
  "wide_pending j n = map (\<lambda>k. (wide_inode k, ''/'' @ wide_name k)) [j..<n]"

text \<open>
  Devices for examples: the library knows the one device \<^verbatim>\<open>/dev/sda\<close>, a volume of
  512-byte blocks with an entry that is no partition, a partition without a filesystem
  (address 1) and a partition that holds the filesystem \<open>fs\<close> (address 2).
\<close>

definition raw_part :: TskVsPartInfo where
  "raw_part =
     \<lparr>part_getAddr = 1, part_getDesc = None, part_getFlags = 6, part_getStart = 2048,
      part_getLen = 4096, part_fs_open = None\<rparr>"

definition device_part :: "TskFsInfo \<Rightarrow> TskVsPartInfo" where
  "device_part fs =
     \<lparr>part_getAddr = 2, part_getDesc = Some ''Linux (0x83)'', part_getFlags = 1,
      part_getStart = 6144, part_getLen = 8192, part_fs_open = Some fs\<rparr>"

definition device_vs :: "TskFsInfo \<Rightarrow> TskVsInfo" where
  "device_vs fs =
     \<lparr>vs_getBlockSize = 512, vs_getPart = [None, Some raw_part, Some (device_part fs)]\<rparr>"

definition device_tsk :: "TskFsInfo \<Rightarrow> libtsk" where
  "device_tsk fs =
     \<lparr>tsk_img_open = (\<lambda>path. if path = ''/dev/sda'' then Some \<lparr>img_vs_open = Some (device_vs fs)\<rparr>
                              else None),
      tsk_typeToName = (\<lambda>t. ''ext4'')\<rparr>"

definition demo_part :: TskVsPartInfo where
  "demo_part = device_part demo_fs"

definition demo_vs :: TskVsInfo where
  "demo_vs = device_vs demo_fs"

definition demo_tsk :: libtsk where
  "demo_tsk = device_tsk demo_fs"

text \<open>
  A file with metadata and the parent name \<open>name\<close>, and a filesystem where inode 0 opens
  (as the master file table of NTFS does, a filesystem for which libtsk fills the parent
  name) beside inode 9.
\<close>

definition named_file :: "TSK_INUM_T \<Rightarrow> string \<Rightarrow> TskFsFile" where
  "named_file ino name =
     \<lparr>file_getFsInfo = None,
      file_getMeta = Some \<lparr>meta_getAddr = ino, meta_getUid = 0, meta_getGid = 0,
        meta_getMode = 0, meta_getSize = 0, meta_getATime = 0, meta_getMTime = 0,
        meta_getCrTime = 0, meta_getNLink = 1, meta_getType = TSK_FS_META_TYPE_REG,
        meta_name2 = [name]\<rparr>,
      file_getName = None\<rparr>"

definition mft_file :: TskFsFile where
  "mft_file = named_file 0 ''$MFT''"

definition inode_fs :: TskFsInfo where
  "inode_fs = demo_fs\<lparr>fs_file_open_inum :=
     (\<lambda>inum. if inum = 0 then Some mft_file
              else if inum = 9 then Some (named_file 9 ''x'')
              else None)\<rparr>"

text \<open>A filesystem where inode 9 opens to a file with metadata and no parent name.\<close>

definition no_name2_fs :: TskFsInfo where
  "no_name2_fs = demo_fs\<lparr>fs_file_open_inum :=
     (\<lambda>inum. if inum = 9 then Some (dir_ent TSK_FS_META_TYPE_REG 9 ''x'') else None)\<rparr>"

section \<open>Properties\<close>

subsection \<open>The counter counts the calls\<close>

lemma upt_append_upt: "a \<le> b \<Longrightarrow> b \<le> c \<Longrightarrow> [a..<b] @ [b..<c] = [a..<(c::nat)]"
  using upt_add_eq_append[of a b "c - b"] by simp

text \<open>
  The values of the counter found by the calls of a walk, in the order of the calls,
  are the numbers from the value the walk starts with up to the value it ends with.
\<close>

lemma stack_counts_calls:
  "map (call_stack \<circ> snd) (walk_calls ptn fs d (st, path, inode)) =
     [dh_stack (fst st) ..< dh_stack (fst (generateFiles ptn fs st path inode))]"
  "map (call_stack \<circ> snd) (recurse_walk_calls ptn fs d st pending) =
     [dh_stack (fst st) ..< dh_stack (fst (recurse ptn fs st pending))]"
proof (induction ptn fs st path inode and ptn fs st pending arbitrary: d and d
    rule: generateFiles_recurse.induct)
  case (1 ptn fs dh results path inode)
  show ?case
  proof (cases "1024 < dh_stack dh")
    case True
    then show ?thesis
      by (simp add: walk_calls_unfold generateFiles.simps call_stack_def)
  next
    case False
    show ?thesis
    proof (cases "fs_dir_open fs (if inode = 0 then fs_getRootINum fs else inode)")
      case None
      with False show ?thesis
        by (simp add: walk_calls_unfold generateFiles.simps call_stack_def)
    next
      case (Some dir)
      let ?st = "(dh\<lparr>dh_stack := dh_stack dh + 1\<rparr>, fst (dir_entries dh ptn path dir results))"
      let ?pending = "snd (dir_entries dh ptn path dir results)"
      have le: "dh_stack dh + 1 \<le> dh_stack (fst (recurse ptn fs ?st ?pending))"
        using stack_mono(2)[of ?st ptn fs ?pending] by simp
      have "[dh_stack dh ..< dh_stack (fst (recurse ptn fs ?st ?pending))] =
            dh_stack dh # [dh_stack dh + 1 ..< dh_stack (fst (recurse ptn fs ?st ?pending))]"
        using le by (simp add: upt_conv_Cons)
      with False Some 1[OF False Some, of "Suc d"] show ?thesis
        by (simp add: walk_calls_unfold generateFiles.simps call_stack_def)
    qed
  qed
next
  case (2 ptn fs st)
  then show ?case by simp
next
  case (3 ptn fs st ino leaf rest)
  show ?case
  proof (cases "leaf \<in> dh_loops (fst st)")
    case True
    with 3(1) show ?thesis by (simp add: recurse_walk_calls_Cons)
  next
    case False
    let ?st' = "loops_insert leaf (generateFiles ptn fs st leaf ino)"
    have a: "dh_stack (fst st) \<le> dh_stack (fst (generateFiles ptn fs st leaf ino))"
      using stack_mono(1)[of st ptn fs leaf ino] by simp
    have b: "dh_stack (fst ?st') = dh_stack (fst (generateFiles ptn fs st leaf ino))"
      by (simp add: loops_insert_def)
    have c: "dh_stack (fst ?st') \<le> dh_stack (fst (recurse ptn fs ?st' rest))"
      by (rule stack_mono(2))
    from False 3(2)[OF False, of d] 3(3)[OF False, of d] a b c show ?thesis
      by (simp add: recurse_walk_calls_Cons upt_append_upt)
  qed
qed

lemma stack_after_walk:
  "dh_stack (fst (generateFiles ptn fs st path inode)) =
     dh_stack (fst st) + length (walk_calls ptn fs d (st, path, inode))"
proof -
  have "length (walk_calls ptn fs d (st, path, inode)) =
        length (map (call_stack \<circ> snd) (walk_calls ptn fs d (st, path, inode)))"
    by simp
  also have "\<dots> = dh_stack (fst (generateFiles ptn fs st path inode)) - dh_stack (fst st)"
    by (simp only: stack_counts_calls(1) length_upt)
  finally show ?thesis
    using stack_mono(1)[of st ptn fs path inode] by simp
qed

lemma filter_upt_le: "length (filter (\<lambda>n. n \<le> k) [a..<b]) \<le> Suc k - a"
proof -
  have "distinct (filter (\<lambda>n. n \<le> k) [a..<b])"
    by simp
  then have "length (filter (\<lambda>n. n \<le> k) [a..<b]) = card (set (filter (\<lambda>n. n \<le> k) [a..<b]))"
    by (rule distinct_card[symmetric])
  also have "\<dots> \<le> card {a..k}"
    by (rule card_mono) auto
  finally show ?thesis by simp
qed

lemma visits_bounded:
  "length (filter (\<lambda>(d, c). \<not> returns_immediately c) (walk_calls ptn fs d (st, path, inode)))
     \<le> 1025 - dh_stack (fst st)"
proof -
  let ?cs = "walk_calls ptn fs d (st, path, inode)"
  have "length (filter (\<lambda>(d, c). \<not> returns_immediately c) ?cs) =
        length (filter (\<lambda>n. n \<le> 1024) (map (call_stack \<circ> snd) ?cs))"
    by (simp add: filter_map comp_def returns_immediately_def case_prod_unfold not_less)
  also have "\<dots> \<le> Suc 1024 - dh_stack (fst st)"
    unfolding stack_counts_calls(1) by (rule filter_upt_le)
  finally show ?thesis by simp
qed

text \<open>
  The walk of the wide filesystem: the root is scanned, then one call is made for each of
  its \<open>n\<close> directories; the calls that find the counter above 1024 return at once, so
  the files of the first 1024 directories only are recorded.
\<close>

lemma map_assign_last:
  "\<forall>k' \<in> fst ` set m. k' < k \<Longrightarrow> map_assign k v m = m @ [(k, v)]"
  by (induction k v m rule: map_assign.induct) auto

lemma wide_inode_unat: "k + 3 < 2 ^ 64 \<Longrightarrow> unat (wide_inode k) = k + 3"
  unfolding wide_inode_def by (simp only: unat_of_nat) simp

lemma wide_inode_less:
  "n + 3 < 2 ^ 64 \<Longrightarrow> j < n \<Longrightarrow> wide_inode j < wide_inode n"
  by (simp add: word_less_nat_alt wide_inode_unat)

lemma wide_inode_neq: "k + 3 < 2 ^ 64 \<Longrightarrow> wide_inode k \<noteq> 0 \<and> wide_inode k \<noteq> 2"
proof
  assume k: "k + 3 < 2 ^ 64"
  show "wide_inode k \<noteq> 0"
  proof
    assume "wide_inode k = 0"
    then have "unat (wide_inode k) = 0" by simp
    with wide_inode_unat[OF k] show False by simp
  qed
  show "wide_inode k \<noteq> 2"
  proof
    assume "wide_inode k = 2"
    then have "unat (wide_inode k) = 2" by simp
    with wide_inode_unat[OF k] show False by simp
  qed
qed

lemma wide_name_inj: "wide_name k = wide_name j \<longleftrightarrow> k = j"
  by (simp add: wide_name_def)

lemma wide_scan:
  "n + 3 < 2 ^ 64 \<Longrightarrow>
     fold (dir_entry dh ptn ''/'') (wide_root n) (results, []) = (results, wide_pending 0 n)"
proof (induction n)
  case 0
  then show ?case by (simp add: wide_root_def wide_pending_def)
next
  case (Suc n)
  have keys: "\<forall>k' \<in> fst ` set (wide_pending 0 n). k' < wide_inode n"
    using Suc.prems by (auto simp: wide_pending_def intro!: wide_inode_less)
  have "wide_root (Suc n) =
        wide_root n @ [Some (dir_ent TSK_FS_META_TYPE_DIR (wide_inode n) (wide_name n))]"
    by (simp add: wide_root_def)
  moreover have "dir_entry dh ptn ''/''
      (Some (dir_ent TSK_FS_META_TYPE_DIR (wide_inode n) (wide_name n)))
      (results, wide_pending 0 n) =
      (results, wide_pending 0 n @ [(wide_inode n, ''/'' @ wide_name n)])"
    using map_assign_last[OF keys]
    by (simp add: dir_entry_def dir_ent_def TSK_FS_ISDOT_def wide_name_def path_append_def)
  ultimately show ?case
    using Suc by (simp add: wide_pending_def)
qed

lemma wide_subdir:
  "ino \<noteq> 0 \<Longrightarrow> ino \<noteq> 2 \<Longrightarrow>
     generateFiles ptn (wide_fs n) (dh, results) path ino =
       (dh\<lparr>dh_stack := dh_stack dh + 1\<rparr>,
        if 1024 < dh_stack dh then results
        else generateFile dh ptn (dir_ent TSK_FS_META_TYPE_REG 1 ''f'')
               (path_append path ''f'') results)"
  by (simp add: generateFiles.simps wide_fs_def dir_entries_def dir_entry_def dir_ent_def)

lemma wide_recurse:
  "n + 3 < 2 ^ 64 \<Longrightarrow> j \<le> n \<Longrightarrow> m = n - j \<Longrightarrow>
   \<forall>k. j \<le> k \<longrightarrow> ''/'' @ wide_name k \<notin> dh_loops dh \<Longrightarrow>
     dh_stack (fst (recurse ptn (wide_fs n) (dh, results) (wide_pending j n))) = dh_stack dh + (n - j)
     \<and> length (snd (recurse ptn (wide_fs n) (dh, results) (wide_pending j n))) =
         length results + min (n - j) (1025 - dh_stack dh)"
proof (induction m arbitrary: j dh results)
  case 0
  then show ?case by (simp add: wide_pending_def)
next
  case (Suc m)
  define ino where "ino = wide_inode j"
  define leaf where "leaf = ''/'' @ wide_name j"
  from Suc.prems have j: "j < n" by simp
  have pend: "wide_pending j n = (ino, leaf) # wide_pending (Suc j) n"
    using j by (simp add: wide_pending_def upt_conv_Cons ino_def leaf_def)
  have ne: "ino \<noteq> 0" "ino \<noteq> 2"
    using wide_inode_neq[of j] Suc.prems(1) j by (simp_all add: ino_def)
  have notin: "leaf \<notin> dh_loops dh"
    using Suc.prems(4) by (simp add: leaf_def)
  define st where "st = generateFiles ptn (wide_fs n) (dh, results) leaf ino"
  have st: "st = (dh\<lparr>dh_stack := dh_stack dh + 1\<rparr>,
        if 1024 < dh_stack dh then results
        else generateFile dh ptn (dir_ent TSK_FS_META_TYPE_REG 1 ''f'')
               (path_append leaf ''f'') results)"
    unfolding st_def by (rule wide_subdir[OF ne])
  define dh' where "dh' = dh\<lparr>dh_stack := dh_stack dh + 1, dh_loops := insert leaf (dh_loops dh)\<rparr>"
  have ins: "loops_insert leaf st = (dh', snd st)"
    by (simp add: st loops_insert_def dh'_def)
  have fresh: "\<forall>k. Suc j \<le> k \<longrightarrow> ''/'' @ wide_name k \<notin> dh_loops dh'"
    using Suc.prems(4) by (auto simp: wide_name_inj dh'_def leaf_def)
  have len: "length (snd st) = length results + (if 1024 < dh_stack dh then 0 else 1)"
    by (simp add: st generateFile_def Let_def)
  have m: "m = n - Suc j" using Suc.prems(3) by simp
  have sj: "Suc j \<le> n" using j by simp
  from Suc.IH[OF Suc.prems(1) sj m fresh, of "snd st"]
  have ih: "dh_stack (fst (recurse ptn (wide_fs n) (dh', snd st) (wide_pending (Suc j) n))) =
              dh_stack dh' + (n - Suc j)
     \<and> length (snd (recurse ptn (wide_fs n) (dh', snd st) (wide_pending (Suc j) n))) =
         length (snd st) + min (n - Suc j) (1025 - dh_stack dh')" .
  have "recurse ptn (wide_fs n) (dh, results) (wide_pending j n) =
        recurse ptn (wide_fs n) (dh', snd st) (wide_pending (Suc j) n)"
    using notin ins by (simp add: pend st_def)
  with ih len j show ?case by (auto simp: min_def dh'_def)
qed

lemma wide_walk:
  assumes "n + 3 < 2 ^ 64"
  shows "length (snd (generateFiles ptn (wide_fs n) (DeviceHelper_new dev, []) ''/'' 0)) = min n 1024"
    and "dh_stack (fst (generateFiles ptn (wide_fs n) (DeviceHelper_new dev, []) ''/'' 0)) = n + 1"
proof -
  let ?dh = "DeviceHelper_new dev"
  have "generateFiles ptn (wide_fs n) (?dh, []) ''/'' 0 =
        recurse ptn (wide_fs n) (?dh\<lparr>dh_stack := 1\<rparr>, []) (wide_pending 0 n)"
    using wide_scan[OF assms, of ?dh ptn "[]"]
    by (simp add: generateFiles.simps wide_fs_def dir_entries_def DeviceHelper_new_def)
  moreover have "dh_stack (fst (recurse ptn (wide_fs n) (?dh\<lparr>dh_stack := 1\<rparr>, []) (wide_pending 0 n))) =
      dh_stack (?dh\<lparr>dh_stack := 1\<rparr>) + (n - 0)
     \<and> length (snd (recurse ptn (wide_fs n) (?dh\<lparr>dh_stack := 1\<rparr>, []) (wide_pending 0 n))) =
         length ([] :: QueryData) + min (n - 0) (1025 - dh_stack (?dh\<lparr>dh_stack := 1\<rparr>))"
    by (rule wide_recurse[OF assms]) (simp_all add: DeviceHelper_new_def)
  ultimately show "length (snd (generateFiles ptn (wide_fs n) (?dh, []) ''/'' 0)) = min n 1024"
    and "dh_stack (fst (generateFiles ptn (wide_fs n) (?dh, []) ''/'' 0)) = n + 1"
    by simp_all
qed

text \<open>
  C10. Every call of \<open>generateFiles\<close> increments the counter once and nothing decrements
  it: a walk ends with the counter raised by the number of calls made, and the calls, in
  the order of execution, find the consecutive values from the starting one upwards, so
  the counter never goes down during the walk. Hence the calls of one whole walk that pass
  the test of the counter, whatever their depth, are at most 1026 (they are at most 1025:
  the calls that find 0 to 1024), and all calls beyond the first 1025 return at once, in a
  wide tree as in a deep one: of the 2000 directories in the root of \<open>wide_fs 2000\<close>,
  each with one file, the walk makes its 2001 calls and records the files of 1024.
\<close>

theorem counter_bounds_calls_of_walk:
  "dh_stack (fst (generateFiles ptn fs st path inode)) =
     dh_stack (fst st) + length (walk_calls ptn fs 0 (st, path, inode))
   \<and> map (call_stack \<circ> snd) (walk_calls ptn fs 0 (st, path, inode)) =
       [dh_stack (fst st) ..< dh_stack (fst st) + length (walk_calls ptn fs 0 (st, path, inode))]
   \<and> length (filter (\<lambda>(d, c). \<not> returns_immediately c)
        (walk_calls ptn fs 0 (st, path, inode))) \<le> 1025
   \<and> length (filter (\<lambda>(d, c). \<not> returns_immediately c)
        (walk_calls ptn fs 0 (st, path, inode))) \<le> 1026
   \<and> length (walk_calls ptn fs 0 (st, path, inode)) - 1025 \<le>
       length (filter (\<lambda>(d, c). returns_immediately c) (walk_calls ptn fs 0 (st, path, inode)))
   \<and> length (walk_calls ptn (wide_fs 2000) 0 ((DeviceHelper_new dev, []), ''/'', 0)) = 2001
   \<and> length (snd (generateFiles ptn (wide_fs 2000) (DeviceHelper_new dev, []) ''/'' 0)) = 1024"
proof -
  let ?cs = "walk_calls ptn fs 0 (st, path, inode)"
  have 1: "dh_stack (fst (generateFiles ptn fs st path inode)) = dh_stack (fst st) + length ?cs"
    by (rule stack_after_walk)
  have 2: "map (call_stack \<circ> snd) ?cs = [dh_stack (fst st) ..< dh_stack (fst st) + length ?cs]"
    using stack_counts_calls(1)[of ptn fs 0 st path inode] 1 by simp
  have 3: "length (filter (\<lambda>(d, c). \<not> returns_immediately c) ?cs) \<le> 1025"
    using visits_bounded[of ptn fs 0 st path inode] by simp
  have "length ?cs = length (filter (\<lambda>(d, c). returns_immediately c) ?cs) +
                     length (filter (\<lambda>x. \<not> (case x of (d, c) \<Rightarrow> returns_immediately c)) ?cs)"
    by (rule sum_length_filter_compl[symmetric])
  also have "(\<lambda>x. \<not> (case x of (d, c) \<Rightarrow> returns_immediately c)) =
             (\<lambda>(d, c). \<not> returns_immediately c)"
    by auto
  finally have 4: "length ?cs - 1025 \<le> length (filter (\<lambda>(d, c). returns_immediately c) ?cs)"
    using 3 by simp
  have w: "(2000::nat) + 3 < 2 ^ 64" by simp
  have 5: "length (walk_calls ptn (wide_fs 2000) 0 ((DeviceHelper_new dev, []), ''/'', 0)) = 2001"
    using stack_after_walk[of ptn "wide_fs 2000" "(DeviceHelper_new dev, [])" "''/''" 0 0]
      wide_walk(2)[OF w, of ptn dev]
    by (simp add: DeviceHelper_new_def)
  have 6: "length (snd (generateFiles ptn (wide_fs 2000) (DeviceHelper_new dev, []) ''/'' 0)) = 1024"
    using wide_walk(1)[OF w, of ptn dev] by simp
  from 1 2 3 4 5 6 show ?thesis by simp
qed

subsection \<open>The order of the records and of the descents\<close>

lemma generateFile_append:
  "generateFile dh ptn file path results = results @ generateFile dh ptn file path []"
  by (simp add: generateFile_def Let_def)

lemma dir_entry_fst:
  "fst (dir_entry dh ptn path f (rs, add)) =
     rs @ (case f of None \<Rightarrow> []
           | Some file \<Rightarrow> if is_regular file then generateFile dh ptn file (leaf_path path file) [] else [])"
  by (auto simp: dir_entry_def is_regular_def leaf_path_def Let_def generateFile_append[of _ _ _ _ rs]
      split: option.splits)




lemma dir_entry_snd:
  "snd (dir_entry dh ptn path f (rs, add)) =
     (case f of None \<Rightarrow> add
      | Some file \<Rightarrow> (case subdir_addr file of None \<Rightarrow> add
                      | Some a \<Rightarrow> map_assign a (leaf_path path file) add))"
  by (auto simp: dir_entry_def subdir_addr_def leaf_path_def Let_def split: option.splits)

lemma fold_dir_entry_fst:
  "fst (fold (dir_entry dh ptn path) dir (rs, add)) =
     rs @ concat (map (\<lambda>file. generateFile dh ptn file (leaf_path path file) []) (regular_files dir))"
proof (induction dir arbitrary: rs add)
  case Nil
  then show ?case by (simp add: regular_files_def)
next
  case (Cons f dir)
  obtain rs' add' where s: "dir_entry dh ptn path f (rs, add) = (rs', add')"
    by (cases "dir_entry dh ptn path f (rs, add)")
  from dir_entry_fst[of dh ptn path f rs add] s
  have rs': "rs' = rs @ (case f of None \<Rightarrow> []
           | Some file \<Rightarrow> if is_regular file then generateFile dh ptn file (leaf_path path file) [] else [])"
    by simp
  show ?case
    using Cons.IH[of rs' add'] s rs'
    by (auto simp: regular_files_def split: option.splits)
qed






lemma results_prefix:
  "prefix (snd st) (snd (generateFiles ptn fs st path inode))"
  "prefix (snd st) (snd (recurse ptn fs st pending))"
proof (induction ptn fs st path inode and ptn fs st pending rule: generateFiles_recurse.induct)
  case (1 ptn fs dh results path inode)
  show ?case
  proof (cases "1024 < dh_stack dh")
    case True
    then show ?thesis by (simp add: generateFiles.simps)
  next
    case False
    show ?thesis
    proof (cases "fs_dir_open fs (if inode = 0 then fs_getRootINum fs else inode)")
      case None
      with False show ?thesis by (simp add: generateFiles.simps)
    next
      case (Some dir)
      have "prefix results (fst (dir_entries dh ptn path dir results))"
        by (simp add: dir_entries_def fold_dir_entry_fst)
      with 1[OF False Some] False Some show ?thesis
        by (auto simp: generateFiles.simps intro: prefix_order.trans)
    qed
  qed
next
  case (2 ptn fs st)
  then show ?case by simp
next
  case (3 ptn fs st ino leaf rest)
  show ?case
  proof (cases "leaf \<in> dh_loops (fst st)")
    case True
    with 3(1) show ?thesis by simp
  next
    case False
    from 3(2)[OF False] 3(3)[OF False] False show ?thesis
      by (auto simp: loops_insert_def intro: prefix_order.trans)
  qed
qed


lemma dir_entries_Nil: "dir_entries dh ptn path [] results = (results, [])"
  by (simp add: dir_entries_def)

lemma demo_dir_records: "map (\<lambda>r. r ''path'') (fst (dir_entries dh ''2'' ''/'' demo_dir [])) =
       [Some ''/x'', Some ''/y'']"
  by (simp add: demo_dir_def dir_entries_def dir_entry_def dir_ent_def generateFile_def
      path_append_def TSK_FS_ISDOT_def Let_def)

lemma demo_dir_pending: "snd (dir_entries dh ''2'' ''/'' demo_dir []) =
       [(5, ''/a''), (7, ''/b'')]"
  by (simp add: demo_dir_def dir_entries_def dir_entry_def dir_ent_def generateFile_def
      path_append_def TSK_FS_ISDOT_def Let_def)




subsection \<open>The depth of a walk\<close>

text \<open>
  A call nested \<open>d'\<close> levels below the call \<open>c\<close> finds the counter at least \<open>d'\<close> above
  the value \<open>c\<close> found, and the call that made it passed the test of the counter.
\<close>

lemma walk_calls_depth:
  "(d', c') \<in> set (walk_calls ptn fs d c) \<Longrightarrow>
     d' + call_stack c \<le> d + call_stack c' \<and> (d' = d \<or> d' + call_stack c \<le> d + 1025)"
proof (induction ptn fs d c rule: walk_calls.induct)
  case (1 ptn fs d c)
  from "1.prems" have "(d', c') = (d, c) \<or>
      (\<exists>x \<in> set (direct_calls ptn fs c). (d', c') \<in> set (walk_calls ptn fs (Suc d) x))"
    by (subst (asm) walk_calls.simps) auto
  then show ?case
  proof
    assume "(d', c') = (d, c)"
    then show ?thesis by simp
  next
    assume "\<exists>x \<in> set (direct_calls ptn fs c). (d', c') \<in> set (walk_calls ptn fs (Suc d) x)"
    then obtain x where x: "x \<in> set (direct_calls ptn fs c)"
      and m: "(d', c') \<in> set (walk_calls ptn fs (Suc d) x)" by blast
    from "1.IH"[OF x m] direct_calls_stack[OF x] show ?thesis by auto
  qed
qed

lemma walk_calls_self: "(d, c) \<in> set (walk_calls ptn fs d c)"
  by (subst walk_calls.simps) simp

lemma chain_dir_entries:
  "dir_entries dh ptn path [Some (chain_entry ino)] results =
     (results, [(ino, path_append path ''d'')])"
  by (simp add: dir_entries_def dir_entry_def chain_entry_def TSK_FS_ISDOT_def)

lemma chain_walk:
  "dh_loops dh = {} \<Longrightarrow> dh_stack dh \<le> 1025 \<Longrightarrow>
   unat (if inode = 0 then 2 else inode) + (1025 - dh_stack dh) < 2002 \<Longrightarrow>
   k = 1025 - dh_stack dh \<Longrightarrow>
     dh_stack (fst (generateFiles ptn chain_fs (dh, results) path inode)) = 1026 \<and>
     snd (generateFiles ptn chain_fs (dh, results) path inode) = results"
proof (induction k arbitrary: dh path inode)
  case 0
  then have "dh_stack dh = 1025" by simp
  then show ?case by (simp add: generateFiles.simps)
next
  case (Suc k)
  define e where "e = (if inode = 0 then 2 else inode)"
  let ?dh = "dh\<lparr>dh_stack := dh_stack dh + 1\<rparr>"
  let ?leaf = "path_append path ''d''"
  from Suc.prems have s: "dh_stack dh \<le> 1024" and e: "unat e < 2001" by (auto simp: e_def)
  have e1: "unat (e + 1) = unat e + 1"
    using e by (simp add: unat_add_lem[THEN iffD1])
  then have ne: "e + 1 \<noteq> 0" by (metis Suc_eq_plus1 nat.simps(3) unat_0)
  have ih: "dh_stack (fst (generateFiles ptn chain_fs (?dh, results) ?leaf (e + 1))) = 1026 \<and>
            snd (generateFiles ptn chain_fs (?dh, results) ?leaf (e + 1)) = results"
  proof (rule Suc.IH)
    show "dh_loops ?dh = {}" using Suc.prems by simp
    show "dh_stack ?dh \<le> 1025" using s by simp
    show "unat (if e + 1 = 0 then 2 else e + 1) + (1025 - dh_stack ?dh) < 2002"
      using ne e1 Suc.prems s by (simp add: e_def)
    show "k = 1025 - dh_stack ?dh" using Suc.prems by simp
  qed
  have eq: "(if inode = 0 then fs_getRootINum chain_fs else inode) = e"
    by (simp add: e_def chain_fs_def)
  have open_dir: "fs_dir_open chain_fs e = Some [Some (chain_entry (e + 1))]"
    using e by (simp add: chain_fs_def)
  have "generateFiles ptn chain_fs (dh, results) path inode =
        loops_insert ?leaf (generateFiles ptn chain_fs (?dh, results) ?leaf (e + 1))"
    using s Suc.prems(1)
    by (subst generateFiles.simps) (simp add: eq open_dir chain_dir_entries)
  with ih show ?case by (simp add: loops_insert_def)
qed

lemma chain_depths:
  "dh_loops dh = {} \<Longrightarrow> dh_stack dh \<le> 1025 \<Longrightarrow>
   unat (if inode = 0 then 2 else inode) + (1025 - dh_stack dh) < 2002 \<Longrightarrow>
   k = 1025 - dh_stack dh \<Longrightarrow>
     map fst (walk_calls ptn chain_fs d ((dh, results), path, inode)) = [d ..< Suc (d + k)]"
proof (induction k arbitrary: dh path inode d)
  case 0
  then have "dh_stack dh = 1025" by simp
  then show ?case by (simp add: walk_calls_unfold)
next
  case (Suc k)
  define e where "e = (if inode = 0 then 2 else inode)"
  let ?dh = "dh\<lparr>dh_stack := dh_stack dh + 1\<rparr>"
  let ?leaf = "path_append path ''d''"
  from Suc.prems have s: "dh_stack dh \<le> 1024" and e: "unat e < 2001" by (auto simp: e_def)
  have e1: "unat (e + 1) = unat e + 1"
    using e by (simp add: unat_add_lem[THEN iffD1])
  then have ne: "e + 1 \<noteq> 0" by (metis Suc_eq_plus1 nat.simps(3) unat_0)
  have ih: "map fst (walk_calls ptn chain_fs (Suc d) ((?dh, results), ?leaf, e + 1)) =
            [Suc d ..< Suc (Suc d + k)]"
  proof (rule Suc.IH)
    show "dh_loops ?dh = {}" using Suc.prems by simp
    show "dh_stack ?dh \<le> 1025" using s by simp
    show "unat (if e + 1 = 0 then 2 else e + 1) + (1025 - dh_stack ?dh) < 2002"
      using ne e1 Suc.prems s by (simp add: e_def)
    show "k = 1025 - dh_stack ?dh" using Suc.prems by simp
  qed
  have eq: "(if inode = 0 then fs_getRootINum chain_fs else inode) = e"
    by (simp add: e_def chain_fs_def)
  have open_dir: "fs_dir_open chain_fs e = Some [Some (chain_entry (e + 1))]"
    using e by (simp add: chain_fs_def)
  have "walk_calls ptn chain_fs d ((dh, results), path, inode) =
        (d, ((dh, results), path, inode)) #
        walk_calls ptn chain_fs (Suc d) ((?dh, results), ?leaf, e + 1)"
    using s Suc.prems(1)
    by (subst walk_calls_unfold)
       (simp add: eq open_dir chain_dir_entries recurse_walk_calls_Cons)
  with ih show ?case by (simp add: upt_conv_Cons)
qed

lemma chain_calls:
  "length (walk_calls ptn chain_fs 0 ((DeviceHelper_new dev, []), ''/'', 0)) = 1026"
  "map fst (walk_calls ptn chain_fs 0 ((DeviceHelper_new dev, []), ''/'', 0)) =
     [0 ..< length (walk_calls ptn chain_fs 0 ((DeviceHelper_new dev, []), ''/'', 0))]"
  "map (call_stack \<circ> snd) (walk_calls ptn chain_fs 0 ((DeviceHelper_new dev, []), ''/'', 0)) =
     [0 ..< length (walk_calls ptn chain_fs 0 ((DeviceHelper_new dev, []), ''/'', 0))]"
proof -
  let ?chain = "walk_calls ptn chain_fs 0 ((DeviceHelper_new dev, []), ''/'', 0)"
  have chain: "dh_stack (fst (generateFiles ptn chain_fs (DeviceHelper_new dev, []) ''/'' 0)) = 1026
      \<and> snd (generateFiles ptn chain_fs (DeviceHelper_new dev, []) ''/'' 0) = []"
    by (rule chain_walk[where k = 1025]) (simp_all add: DeviceHelper_new_def)
  then show len: "length ?chain = 1026"
    using stack_after_walk[of ptn chain_fs "(DeviceHelper_new dev, [])" "''/''" 0 0]
    by (simp add: DeviceHelper_new_def)
  have "map fst ?chain = [0 ..< Suc (0 + 1025)]"
    by (rule chain_depths) (simp_all add: DeviceHelper_new_def)
  then show "map fst ?chain = [0 ..< length ?chain]"
    by (simp only: len) simp
  have cs: "map (call_stack \<circ> snd) ?chain =
        [dh_stack (fst (DeviceHelper_new dev, ([]::QueryData))) ..<
         dh_stack (fst (generateFiles ptn chain_fs (DeviceHelper_new dev, []) ''/'' 0))]"
    by (rule stack_counts_calls(1))
  have z: "dh_stack (fst (DeviceHelper_new dev, ([]::QueryData))) = 0"
    by (simp add: DeviceHelper_new_def)
  have e: "dh_stack (fst (generateFiles ptn chain_fs (DeviceHelper_new dev, []) ''/'' 0)) =
           length ?chain"
    by (simp only: chain[THEN conjunct1] len)
  show "map (call_stack \<circ> snd) ?chain = [0 ..< length ?chain]"
    by (simp only: cs z e)
qed

text \<open>
  On the chain, the call number \<open>i\<close> of the walk is at depth \<open>i\<close> and finds the counter
  at \<open>i\<close>.
\<close>

lemma chain_call_at:
  assumes "i < 1026"
  shows "fst (walk_calls ptn chain_fs 0 ((DeviceHelper_new dev, []), ''/'', 0) ! i) = i"
    and "call_stack (snd (walk_calls ptn chain_fs 0 ((DeviceHelper_new dev, []), ''/'', 0) ! i)) = i"
proof -
  let ?chain = "walk_calls ptn chain_fs 0 ((DeviceHelper_new dev, []), ''/'', 0)"
  have i: "i < length ?chain"
    using assms by (simp only: chain_calls(1))
  have "fst (?chain ! i) = map fst ?chain ! i"
    using i by simp
  also have "\<dots> = [0 ..< length ?chain] ! i"
    by (simp only: chain_calls(2))
  finally show "fst (?chain ! i) = i"
    using i by simp
  have "call_stack (snd (?chain ! i)) = map (call_stack \<circ> snd) ?chain ! i"
    using i by simp
  also have "\<dots> = [0 ..< length ?chain] ! i"
    by (simp only: chain_calls(3))
  finally show "call_stack (snd (?chain ! i)) = i"
    using i by simp
qed

lemma boundary_walk:
  "column ''path''
     (snd (generateFiles ''2'' demo_fs ((DeviceHelper_new ''/dev/sda'')\<lparr>dh_stack := 1024\<rparr>, []) ''/'' 0)) =
     [Some ''/x'', Some ''/y'']"
  by (simp add: column_def generateFiles.simps demo_fs_def fs_of_dirs_def dir_entries_def
      dir_entry_def demo_dir_def dir_ent_def TSK_FS_ISDOT_def path_append_def loops_insert_def
      generateFile_def Let_def DeviceHelper_new_def)

lemma boundary_calls:
  "map call_inode (direct_calls ''2'' demo_fs
     (((DeviceHelper_new ''/dev/sda'')\<lparr>dh_stack := 1024\<rparr>, []), ''/'', 0)) = [5, 7]"
  by (simp add: direct_calls_def demo_fs_def fs_of_dirs_def DeviceHelper_new_def demo_dir_pending
      generateFiles.simps loops_insert_def call_inode_def)

text \<open>
  C1, as stated, fails: the test \<^verbatim>\<open>stack_++ > 1024\<close> compares the value the counter had
  before the increment. A call that finds the counter at 1024 increments it to 1025, which
  exceeds the ceiling, and does not return at once: on the root of \<open>demo_fs\<close> it records
  the two regular files and calls for the two subdirectories. In the walk of the chain
  of nested directories from the root, with the counter at 0, the call at depth 1024
  finds the counter at 1024, passes the test, and makes a call at depth 1025.
\<close>

theorem incremented_counter_above_ceiling_visits:
  "1024 < dh_stack ((DeviceHelper_new ''/dev/sda'')\<lparr>dh_stack := 1024\<rparr>) + 1
   \<and> column ''path''
        (snd (generateFiles ''2'' demo_fs
                ((DeviceHelper_new ''/dev/sda'')\<lparr>dh_stack := 1024\<rparr>, []) ''/'' 0)) =
       [Some ''/x'', Some ''/y'']
   \<and> map call_inode (direct_calls ''2'' demo_fs
        (((DeviceHelper_new ''/dev/sda'')\<lparr>dh_stack := 1024\<rparr>, []), ''/'', 0)) = [5, 7]
   \<and> \<not> returns_immediately (((DeviceHelper_new ''/dev/sda'')\<lparr>dh_stack := 1024\<rparr>, []), ''/'', 0)
   \<and> fst (walk_calls ''2'' chain_fs 0 ((DeviceHelper_new ''/dev/sda'', []), ''/'', 0) ! 1024) = 1024
   \<and> call_stack (snd (walk_calls ''2'' chain_fs 0
        ((DeviceHelper_new ''/dev/sda'', []), ''/'', 0) ! 1024)) + 1 = 1025
   \<and> \<not> returns_immediately (snd (walk_calls ''2'' chain_fs 0
        ((DeviceHelper_new ''/dev/sda'', []), ''/'', 0) ! 1024))
   \<and> fst (walk_calls ''2'' chain_fs 0 ((DeviceHelper_new ''/dev/sda'', []), ''/'', 0) ! 1025) = 1025
   \<and> 1024 < fst (walk_calls ''2'' chain_fs 0 ((DeviceHelper_new ''/dev/sda'', []), ''/'', 0) ! 1025)"
proof -
  let ?dh = "(DeviceHelper_new ''/dev/sda'')\<lparr>dh_stack := 1024\<rparr>"
  let ?chain = "walk_calls ''2'' chain_fs 0 ((DeviceHelper_new ''/dev/sda'', []), ''/'', 0)"
  have a: "1024 < dh_stack ?dh + 1" by simp
  have b: "\<not> returns_immediately ((?dh, []), ''/'', 0)"
    by (simp add: returns_immediately_def call_stack_def)
  have d: "fst (?chain ! 1024) = 1024"
    by (rule chain_call_at(1)) simp
  have s: "call_stack (snd (?chain ! 1024)) = 1024"
    by (rule chain_call_at(2)) simp
  from s have s1: "call_stack (snd (?chain ! 1024)) + 1 = 1025"
    by simp
  from s have r: "\<not> returns_immediately (snd (?chain ! 1024))"
    by (simp add: returns_immediately_def)
  have d': "fst (?chain ! 1025) = 1025"
    by (rule chain_call_at(1)) simp
  then have d'': "1024 < fst (?chain ! 1025)"
    by simp
  show ?thesis
    by (intro conjI a boundary_walk boundary_calls b d s1 r d' d'')
qed

text \<open>
  C1, amended. A call that finds the counter above 1024 (the value before the increment
  of \<^verbatim>\<open>stack_++ > 1024\<close>) returns at once: it only increments the counter, adds no row,
  visits nothing and calls nothing. A call that finds the counter at 1024 or below and
  whose directory opens records the regular files of the directory and makes the calls of
  its last loop. Hence, in the walk started by any call, with the first call at depth 0,
  the calls that open a directory are nested at most 1024 levels below the first one, and
  no call at all is nested deeper than 1025 levels. The recursion terminates for every
  filesystem, state, path and inode (every argument is in the domain of the recursion).
  On the chain of 2000 nested directories the walk from the root returns after 1026 calls,
  having recorded nothing: the call at depth \<open>i\<close> finds the counter at \<open>i\<close>, for \<open>i\<close> from
  0 to 1025, so the directories down to depth 1024 are opened and the call at depth 1025
  returns at once.
\<close>

theorem walk_never_deeper_than_ceiling:
  "(1024 < dh_stack dh \<longrightarrow>
      generateFiles ptn fs (dh, results) path inode = (dh\<lparr>dh_stack := dh_stack dh + 1\<rparr>, results)
      \<and> walk_calls ptn fs d ((dh, results), path, inode) = [(d, ((dh, results), path, inode))])
   \<and> (dh_stack dh \<le> 1024 \<longrightarrow>
        fs_dir_open fs (if inode = 0 then fs_getRootINum fs else inode) = Some dir \<longrightarrow>
        prefix (fst (dir_entries dh ptn path dir results))
               (snd (generateFiles ptn fs (dh, results) path inode))
        \<and> direct_calls ptn fs ((dh, results), path, inode) =
            recurse_calls ptn fs
              (dh\<lparr>dh_stack := dh_stack dh + 1\<rparr>, fst (dir_entries dh ptn path dir results))
              (snd (dir_entries dh ptn path dir results)))
   \<and> ((d', c) \<in> set (walk_calls ptn fs 0 (st, path, inode)) \<longrightarrow>
        d' \<le> 1025 \<and> (\<not> returns_immediately c \<longrightarrow> d' \<le> 1024))
   \<and> generateFiles_recurse_dom (Inl (ptn, fs, st, path, inode))
   \<and> dh_stack (fst (generateFiles ptn chain_fs (DeviceHelper_new dev, []) ''/'' 0)) = 1026
   \<and> snd (generateFiles ptn chain_fs (DeviceHelper_new dev, []) ''/'' 0) = []
   \<and> length (walk_calls ptn chain_fs 0 ((DeviceHelper_new dev, []), ''/'', 0)) = 1026
   \<and> map fst (walk_calls ptn chain_fs 0 ((DeviceHelper_new dev, []), ''/'', 0)) =
       [0 ..< length (walk_calls ptn chain_fs 0 ((DeviceHelper_new dev, []), ''/'', 0))]
   \<and> map (call_stack \<circ> snd) (walk_calls ptn chain_fs 0 ((DeviceHelper_new dev, []), ''/'', 0)) =
       [0 ..< length (walk_calls ptn chain_fs 0 ((DeviceHelper_new dev, []), ''/'', 0))]"
proof -
  have guard: "1024 < dh_stack dh \<longrightarrow>
      generateFiles ptn fs (dh, results) path inode = (dh\<lparr>dh_stack := dh_stack dh + 1\<rparr>, results)
      \<and> walk_calls ptn fs d ((dh, results), path, inode) = [(d, ((dh, results), path, inode))]"
    by (simp add: generateFiles.simps walk_calls_unfold)
  have visit: "dh_stack dh \<le> 1024 \<longrightarrow>
        fs_dir_open fs (if inode = 0 then fs_getRootINum fs else inode) = Some dir \<longrightarrow>
        prefix (fst (dir_entries dh ptn path dir results))
               (snd (generateFiles ptn fs (dh, results) path inode))
        \<and> direct_calls ptn fs ((dh, results), path, inode) =
            recurse_calls ptn fs
              (dh\<lparr>dh_stack := dh_stack dh + 1\<rparr>, fst (dir_entries dh ptn path dir results))
              (snd (dir_entries dh ptn path dir results))"
  proof (intro impI)
    assume a: "dh_stack dh \<le> 1024"
      and b: "fs_dir_open fs (if inode = 0 then fs_getRootINum fs else inode) = Some dir"
    let ?st = "(dh\<lparr>dh_stack := dh_stack dh + 1\<rparr>, fst (dir_entries dh ptn path dir results))"
    let ?pending = "snd (dir_entries dh ptn path dir results)"
    have "generateFiles ptn fs (dh, results) path inode = recurse ptn fs ?st ?pending"
      using a b by (simp add: generateFiles.simps)
    with results_prefix(2)[of ?st ptn fs ?pending]
    have 1: "prefix (fst (dir_entries dh ptn path dir results))
               (snd (generateFiles ptn fs (dh, results) path inode))"
      by simp
    have 2: "direct_calls ptn fs ((dh, results), path, inode) = recurse_calls ptn fs ?st ?pending"
      using a b by (simp add: direct_calls_def)
    from 1 2 show "prefix (fst (dir_entries dh ptn path dir results))
               (snd (generateFiles ptn fs (dh, results) path inode))
        \<and> direct_calls ptn fs ((dh, results), path, inode) = recurse_calls ptn fs ?st ?pending"
      by (rule conjI)
  qed
  have depth: "(d', c) \<in> set (walk_calls ptn fs 0 (st, path, inode)) \<longrightarrow>
        d' \<le> 1025 \<and> (\<not> returns_immediately c \<longrightarrow> d' \<le> 1024)"
  proof
    assume "(d', c) \<in> set (walk_calls ptn fs 0 (st, path, inode))"
    from walk_calls_depth[OF this]
    show "d' \<le> 1025 \<and> (\<not> returns_immediately c \<longrightarrow> d' \<le> 1024)"
      by (auto simp: returns_immediately_def)
  qed
  have total: "generateFiles_recurse_dom (Inl (ptn, fs, st, path, inode))"
    using generateFiles_total by simp
  have chain: "dh_stack (fst (generateFiles ptn chain_fs (DeviceHelper_new dev, []) ''/'' 0)) = 1026
      \<and> snd (generateFiles ptn chain_fs (DeviceHelper_new dev, []) ''/'' 0) = []"
    by (rule chain_walk[where k = 1025]) (simp_all add: DeviceHelper_new_def)
  show ?thesis
    by (intro conjI guard visit depth total chain[THEN conjunct1] chain[THEN conjunct2]
        chain_calls)
qed

theorem walk_never_deeper_than_ceiling_witness:
  "1024 < dh_stack ((DeviceHelper_new ''/dev/sda'')\<lparr>dh_stack := 1025\<rparr>)
   \<and> generateFiles ''2'' chain_fs ((DeviceHelper_new ''/dev/sda'')\<lparr>dh_stack := 1025\<rparr>, []) ''/'' 0 =
       ((DeviceHelper_new ''/dev/sda'')\<lparr>dh_stack := 1026\<rparr>, [])
   \<and> dh_stack ((DeviceHelper_new ''/dev/sda'')\<lparr>dh_stack := 1024\<rparr>) \<le> 1024
   \<and> fs_dir_open demo_fs (if (0::TSK_INUM_T) = 0 then fs_getRootINum demo_fs else 0) = Some demo_dir
   \<and> prefix (fst (dir_entries ((DeviceHelper_new ''/dev/sda'')\<lparr>dh_stack := 1024\<rparr>) ''2'' ''/''
                   demo_dir []))
        (snd (generateFiles ''2'' demo_fs
                ((DeviceHelper_new ''/dev/sda'')\<lparr>dh_stack := 1024\<rparr>, []) ''/'' 0))
   \<and> column ''path'' (fst (dir_entries ((DeviceHelper_new ''/dev/sda'')\<lparr>dh_stack := 1024\<rparr>) ''2'' ''/''
                   demo_dir [])) = [Some ''/x'', Some ''/y'']
   \<and> (0, ((DeviceHelper_new ''/dev/sda'', []), ''/'', 0)) \<in>
       set (walk_calls ''2'' chain_fs 0 ((DeviceHelper_new ''/dev/sda'', []), ''/'', 0))
   \<and> \<not> returns_immediately ((DeviceHelper_new ''/dev/sda'', []), ''/'', 0)
   \<and> (0::nat) \<le> 1024
   \<and> dh_stack (fst (generateFiles ''2'' chain_fs (DeviceHelper_new ''/dev/sda'', []) ''/'' 0)) = 1026"
proof -
  let ?dh = "DeviceHelper_new ''/dev/sda''"
  note T = walk_never_deeper_than_ceiling[where dh = "?dh\<lparr>dh_stack := 1025\<rparr>"
      and ptn = "''2''" and fs = chain_fs and results = "[]" and path = "''/''" and inode = 0
      and d = 0 and d' = 0 and c = "((?dh, []), ''/'', 0)" and st = "(?dh, [])"
      and dev = "''/dev/sda''"]
  note V = walk_never_deeper_than_ceiling[where dh = "?dh\<lparr>dh_stack := 1024\<rparr>"
      and ptn = "''2''" and fs = demo_fs and results = "[]" and path = "''/''" and inode = 0
      and dir = demo_dir]
  have a: "1024 < dh_stack (?dh\<lparr>dh_stack := 1025\<rparr>)" by simp
  have b: "(0, ((?dh, []), ''/'', 0)) \<in> set (walk_calls ''2'' chain_fs 0 ((?dh, []), ''/'', 0))"
    by (rule walk_calls_self)
  have c: "\<not> returns_immediately ((?dh, []), ''/'', 0)"
    by (simp add: returns_immediately_def call_stack_def DeviceHelper_new_def)
  have e: "dh_stack (?dh\<lparr>dh_stack := 1024\<rparr>) \<le> 1024" by simp
  have f: "fs_dir_open demo_fs (if (0::TSK_INUM_T) = 0 then fs_getRootINum demo_fs else 0) =
           Some demo_dir"
    by (simp add: demo_fs_def fs_of_dirs_def)
  have 1: "generateFiles ''2'' chain_fs (?dh\<lparr>dh_stack := 1025\<rparr>, []) ''/'' 0 =
       (?dh\<lparr>dh_stack := 1026\<rparr>, [])"
    using T[THEN conjunct1, rule_format, OF a, THEN conjunct1] by simp
  have 2: "(0::nat) \<le> 1024"
    by (rule T[THEN conjunct2, THEN conjunct2, THEN conjunct1, rule_format, OF b, THEN conjunct2,
          rule_format, OF c])
  have 3: "dh_stack (fst (generateFiles ''2'' chain_fs (?dh, []) ''/'' 0)) = 1026"
    by (rule T[THEN conjunct2, THEN conjunct2, THEN conjunct2, THEN conjunct2, THEN conjunct1])
  have 4: "prefix (fst (dir_entries (?dh\<lparr>dh_stack := 1024\<rparr>) ''2'' ''/'' demo_dir []))
        (snd (generateFiles ''2'' demo_fs (?dh\<lparr>dh_stack := 1024\<rparr>, []) ''/'' 0))"
    by (rule V[THEN conjunct2, THEN conjunct1, rule_format, OF e f, THEN conjunct1])
  have 5: "column ''path'' (fst (dir_entries (?dh\<lparr>dh_stack := 1024\<rparr>) ''2'' ''/'' demo_dir [])) =
           [Some ''/x'', Some ''/y'']"
    unfolding column_def by (rule demo_dir_records)
  show ?thesis by (intro conjI a 1 e f 4 5 b c 2 3)
qed

subsection \<open>The visited-set\<close>

lemma path_append_strict:
  "name \<noteq> [] \<Longrightarrow> strict_prefix path (path_append path name)"
  by (auto simp: path_append_def strict_prefix_def)

lemma map_assign_set: "set (map_assign k v m) \<subseteq> insert (k, v) (set m)"
  by (induction k v m rule: map_assign.induct) auto

lemma dir_entry_pending:
  "x \<in> set (snd (dir_entry dh ptn path f (rs, add))) \<Longrightarrow>
     x \<in> set add \<or>
     (\<exists>file name. f = Some file \<and> file_getName file = Some name \<and> snd x = path_append path name)"
  using map_assign_set
  by (fastforce simp: dir_entry_snd leaf_path_def subdir_addr_def split: option.splits if_splits)

lemma fold_dir_entry_pending:
  "x \<in> set (snd (fold (dir_entry dh ptn path) dir (rs, add))) \<Longrightarrow>
     x \<in> set add \<or>
     (\<exists>file name. Some file \<in> set dir \<and> file_getName file = Some name \<and>
        snd x = path_append path name)"
proof (induction dir arbitrary: rs add)
  case Nil
  then show ?case by simp
next
  case (Cons f dir)
  obtain rs' add' where s: "dir_entry dh ptn path f (rs, add) = (rs', add')"
    by (cases "dir_entry dh ptn path f (rs, add)")
  from Cons.prems s have "x \<in> set (snd (fold (dir_entry dh ptn path) dir (rs', add')))"
    by simp
  from Cons.IH[OF this] show ?case
  proof
    assume "x \<in> set add'"
    with s have "x \<in> set (snd (dir_entry dh ptn path f (rs, add)))" by simp
    from dir_entry_pending[OF this] show ?thesis by auto
  next
    assume "\<exists>file name. Some file \<in> set dir \<and> file_getName file = Some name \<and>
        snd x = path_append path name"
    then show ?thesis by auto
  qed
qed

lemma pending_extends_path:
  assumes "no_empty_names fs" and "fs_dir_open fs ino = Some dir"
    and "x \<in> set (snd (dir_entries dh ptn path dir results))"
  shows "strict_prefix path (snd x)"
proof -
  from assms(3) fold_dir_entry_pending[of x dh ptn path dir results "[]"]
  obtain entry name where "Some entry \<in> set dir" "file_getName entry = Some name"
    "snd x = path_append path name"
    by (auto simp: dir_entries_def)
  moreover from this assms(1,2) have "name \<noteq> []"
    by (auto simp: no_empty_names_def)
  ultimately show ?thesis by (simp add: path_append_strict)
qed

lemma fresh_descents_Nil: "fresh_descents path before after []"
  by (simp add: fresh_descents_def)

lemma fresh_descents_Cons:
  assumes leaf: "leaf \<notin> before" "strict_prefix path leaf"
    and D1: "fresh_descents leaf before mid D1"
    and D2: "fresh_descents path (insert leaf mid) after D2"
    and mono: "before \<subseteq> mid" "insert leaf mid \<subseteq> after"
  shows "fresh_descents path before after (leaf # D1 @ D2)"
proof -
  from D1 have "leaf \<notin> set D1" by (auto simp: fresh_descents_def)
  moreover from D2 have "leaf \<notin> set D2" by (auto simp: fresh_descents_def)
  moreover from D1 D2 have "set D1 \<inter> set D2 = {}" by (auto simp: fresh_descents_def)
  moreover from D1 leaf(2) have "\<forall>p \<in> set D1. strict_prefix path p"
    by (auto simp: fresh_descents_def intro: prefix_order.less_trans)
  ultimately show ?thesis
    using D1 D2 leaf mono by (auto simp: fresh_descents_def)
qed

lemma walk_calls_paths:
  "map (call_path \<circ> snd) (walk_calls ptn fs d (st, path, inode)) =
     path # map (call_path \<circ> snd) (tl (walk_calls ptn fs d (st, path, inode)))"
proof -
  have "walk_calls ptn fs d (st, path, inode) =
        (d, (st, path, inode)) #
        concat (map (walk_calls ptn fs (Suc d)) (direct_calls ptn fs (st, path, inode)))"
    by (rule walk_calls.simps)
  then show ?thesis by (simp add: call_path_def)
qed

lemma descents_fresh:
  "no_empty_names fs \<Longrightarrow>
     fresh_descents path (dh_loops (fst st)) (dh_loops (fst (generateFiles ptn fs st path inode)))
       (map (call_path \<circ> snd) (tl (walk_calls ptn fs d (st, path, inode))))"
  "no_empty_names fs \<Longrightarrow> (\<forall>x \<in> set pending. strict_prefix path' (snd x)) \<Longrightarrow>
     fresh_descents path' (dh_loops (fst st)) (dh_loops (fst (recurse ptn fs st pending)))
       (map (call_path \<circ> snd) (recurse_walk_calls ptn fs d st pending))"
proof (induction ptn fs st path inode and ptn fs st pending arbitrary: d and d path'
    rule: generateFiles_recurse.induct)
  case (1 ptn fs dh results path inode)
  show ?case
  proof (cases "1024 < dh_stack dh")
    case True
    then show ?thesis
      by (simp add: walk_calls_unfold fresh_descents_Nil)
  next
    case False
    show ?thesis
    proof (cases "fs_dir_open fs (if inode = 0 then fs_getRootINum fs else inode)")
      case None
      with False show ?thesis
        by (simp add: walk_calls_unfold fresh_descents_Nil)
    next
      case (Some dir)
      let ?st = "(dh\<lparr>dh_stack := dh_stack dh + 1\<rparr>, fst (dir_entries dh ptn path dir results))"
      let ?pending = "snd (dir_entries dh ptn path dir results)"
      have ext: "\<forall>x \<in> set ?pending. strict_prefix path (snd x)"
        using pending_extends_path[OF "1.prems" Some] by blast
      from "1.IH"[OF False Some "1.prems" ext, of "Suc d"] False Some show ?thesis
        by (simp add: walk_calls_unfold generateFiles.simps)
    qed
  qed
next
  case (2 ptn fs st)
  then show ?case by (simp add: fresh_descents_Nil)
next
  case (3 ptn fs st ino leaf rest)
  from "3.prems" have ext: "\<forall>x \<in> set rest. strict_prefix path' (snd x)"
    and leaf: "strict_prefix path' leaf" by auto
  show ?case
  proof (cases "leaf \<in> dh_loops (fst st)")
    case True
    with "3.IH"(1)[OF True "3.prems"(1) ext, of d] show ?thesis
      by (simp add: recurse_walk_calls_Cons)
  next
    case False
    let ?st' = "loops_insert leaf (generateFiles ptn fs st leaf ino)"
    let ?D1 = "map (call_path \<circ> snd) (tl (walk_calls ptn fs d (st, leaf, ino)))"
    let ?D2 = "map (call_path \<circ> snd) (recurse_walk_calls ptn fs d ?st' rest)"
    have mid: "dh_loops (fst ?st') = insert leaf (dh_loops (fst (generateFiles ptn fs st leaf ino)))"
      by (simp add: loops_insert_def)
    have D1: "fresh_descents leaf (dh_loops (fst st))
                (dh_loops (fst (generateFiles ptn fs st leaf ino))) ?D1"
      by (rule "3.IH"(2)[OF False "3.prems"(1)])
    have D2: "fresh_descents path' (insert leaf (dh_loops (fst (generateFiles ptn fs st leaf ino))))
                (dh_loops (fst (recurse ptn fs ?st' rest))) ?D2"
      using "3.IH"(3)[OF False "3.prems"(1) ext, of d] unfolding mid .
    have eq: "map (call_path \<circ> snd) (recurse_walk_calls ptn fs d st ((ino, leaf) # rest)) =
              leaf # ?D1 @ ?D2"
      by (simp only: recurse_walk_calls_Cons False if_False map_append append_Cons
          walk_calls_paths[of ptn fs d st leaf ino])
    have req: "recurse ptn fs st ((ino, leaf) # rest) = recurse ptn fs ?st' rest"
      using False by simp
    have "fresh_descents path' (dh_loops (fst st)) (dh_loops (fst (recurse ptn fs ?st' rest)))
            (leaf # ?D1 @ ?D2)"
      using False leaf D1 D2
    proof (rule fresh_descents_Cons)
      show "dh_loops (fst st) \<subseteq> dh_loops (fst (generateFiles ptn fs st leaf ino))"
        by (rule loops_mono(1))
      show "insert leaf (dh_loops (fst (generateFiles ptn fs st leaf ino))) \<subseteq>
            dh_loops (fst (recurse ptn fs ?st' rest))"
        using loops_mono(2)[of ?st' ptn fs rest] mid by simp
    qed
    then show ?thesis
      unfolding eq req .
  qed
qed

lemma walk_paths_distinct:
  assumes "no_empty_names fs"
  shows "distinct (map (call_path \<circ> snd) (walk_calls ptn fs d (st, path, inode)))"
proof -
  from descents_fresh(1)[OF assms, of path st ptn inode d]
  show ?thesis
    by (subst walk_calls_paths) (auto simp: fresh_descents_def)
qed

lemma recurse_calls_loops:
  "c \<in> set (recurse_calls ptn fs st pending) \<Longrightarrow>
     dh_loops (fst st) \<subseteq> dh_loops (fst (fst c)) \<and> call_path c \<notin> dh_loops (fst (fst c))"
proof (induction pending arbitrary: st)
  case Nil
  then show ?case by simp
next
  case (Cons a pending)
  obtain ino leaf where a: "a = (ino, leaf)" by (cases a)
  let ?st' = "loops_insert leaf (generateFiles ptn fs st leaf ino)"
  show ?case
  proof (cases "leaf \<in> dh_loops (fst st)")
    case True
    with Cons a show ?thesis by simp
  next
    case False
    with Cons.prems a
    consider "c = (st, leaf, ino)" | "c \<in> set (recurse_calls ptn fs ?st' pending)"
      by auto
    then show ?thesis
    proof cases
      case 1
      with False show ?thesis by (simp add: call_path_def)
    next
      case 2
      have "dh_loops (fst st) \<subseteq> dh_loops (fst ?st')"
        using loops_mono(1)[of st ptn fs leaf ino] by (auto simp: loops_insert_def)
      with Cons.IH[OF 2] show ?thesis by blast
    qed
  qed
qed

lemma recurse_calls_distinct:
  "distinct (map call_path (recurse_calls ptn fs st pending))"
proof (induction pending arbitrary: st)
  case Nil
  then show ?case by simp
next
  case (Cons a pending)
  obtain ino leaf where a: "a = (ino, leaf)" by (cases a)
  let ?st' = "loops_insert leaf (generateFiles ptn fs st leaf ino)"
  show ?case
  proof (cases "leaf \<in> dh_loops (fst st)")
    case True
    with Cons a show ?thesis by simp
  next
    case False
    have in': "leaf \<in> dh_loops (fst ?st')" by (simp add: loops_insert_def)
    have "call_path c \<noteq> leaf" if "c \<in> set (recurse_calls ptn fs ?st' pending)" for c
      using recurse_calls_loops[OF that] in' by blast
    with False a Cons.IH[of ?st'] show ?thesis
      by (auto simp: call_path_def)
  qed
qed

lemma recurse_marks_pending:
  "snd ` set pending \<subseteq> dh_loops (fst (recurse ptn fs st pending))"
proof (induction pending arbitrary: st)
  case Nil
  then show ?case by simp
next
  case (Cons a pending)
  obtain ino leaf where a: "a = (ino, leaf)" by (cases a)
  let ?st' = "loops_insert leaf (generateFiles ptn fs st leaf ino)"
  show ?case
  proof (cases "leaf \<in> dh_loops (fst st)")
    case True
    with Cons.IH[of st] loops_mono(2)[of st ptn fs pending] a show ?thesis by auto
  next
    case False
    have "leaf \<in> dh_loops (fst ?st')" by (simp add: loops_insert_def)
    with False Cons.IH[of ?st'] loops_mono(2)[of ?st' ptn fs pending] a show ?thesis by auto
  qed
qed

lemma empty_name_entry:
  "dir_entries dh ptn path [Some (dir_ent TSK_FS_META_TYPE_DIR ino [])] results =
     (results, [(ino, path)])"
  by (simp add: dir_entries_def dir_entry_def dir_ent_def path_append_def TSK_FS_ISDOT_def)

text \<open>
  C2, as stated, fails: the walk of \<open>loop_fs\<close> from the root descends into the child path
  \<^verbatim>\<open>/\<close> twice (inodes 5 and 6). The second descent starts while the first has not
  returned, so the path is not yet in the visited-set.
\<close>

theorem same_path_descended_twice:
  "map (call_path \<circ> snd)
      (tl (walk_calls ''2'' loop_fs 0 ((DeviceHelper_new ''/dev/sda'', []), ''/'', 0))) =
     [''/'', ''/'']
   \<and> map (call_inode \<circ> snd)
      (tl (walk_calls ''2'' loop_fs 0 ((DeviceHelper_new ''/dev/sda'', []), ''/'', 0))) =
     [5, 6]
   \<and> \<not> distinct (map (call_path \<circ> snd)
      (tl (walk_calls ''2'' loop_fs 0 ((DeviceHelper_new ''/dev/sda'', []), ''/'', 0))))"
  by (simp add: walk_calls_unfold recurse_walk_calls_Cons DeviceHelper_new_def loop_fs_def
      fs_of_dirs_def empty_name_entry dir_entries_Nil generateFiles.simps loops_insert_def
      call_path_def call_inode_def)

text \<open>
  C2, amended. The loop over the pending subdirectories skips an entry whose path is in
  the visited-set, and otherwise descends and inserts the path when the call has returned
  (so a call never finds its own path in the set, and after the loop the paths of all
  pending entries are in it). Hence the calls one loop makes have pairwise different
  paths, and two sibling entries with the same path give exactly one descent. Over the
  whole walk, the paths of the calls are pairwise different when no directory entry has
  the empty name.
\<close>

theorem descent_once_per_path:
  "(leaf \<in> dh_loops (fst st) \<longrightarrow>
      recurse ptn fs st ((ino, leaf) # rest) = recurse ptn fs st rest
      \<and> recurse_calls ptn fs st ((ino, leaf) # rest) = recurse_calls ptn fs st rest)
   \<and> (leaf \<notin> dh_loops (fst st) \<longrightarrow>
      recurse ptn fs st ((ino, leaf) # rest) =
        recurse ptn fs (loops_insert leaf (generateFiles ptn fs st leaf ino)) rest
      \<and> recurse_calls ptn fs st [(ino, leaf), (ino', leaf)] = [(st, leaf, ino)])
   \<and> (c \<in> set (recurse_calls ptn fs st pending) \<longrightarrow> call_path c \<notin> dh_loops (fst (fst c)))
   \<and> snd ` set pending \<subseteq> dh_loops (fst (recurse ptn fs st pending))
   \<and> distinct (map call_path (recurse_calls ptn fs st pending))
   \<and> (no_empty_names fs \<longrightarrow>
        distinct (map (call_path \<circ> snd) (walk_calls ptn fs d (st, path, inode))))"
proof -
  have 1: "leaf \<in> dh_loops (fst st) \<longrightarrow>
      recurse ptn fs st ((ino, leaf) # rest) = recurse ptn fs st rest
      \<and> recurse_calls ptn fs st ((ino, leaf) # rest) = recurse_calls ptn fs st rest"
    by simp
  have 2: "leaf \<notin> dh_loops (fst st) \<longrightarrow>
      recurse ptn fs st ((ino, leaf) # rest) =
        recurse ptn fs (loops_insert leaf (generateFiles ptn fs st leaf ino)) rest
      \<and> recurse_calls ptn fs st [(ino, leaf), (ino', leaf)] = [(st, leaf, ino)]"
    by (simp add: loops_insert_def)
  have 3: "c \<in> set (recurse_calls ptn fs st pending) \<longrightarrow> call_path c \<notin> dh_loops (fst (fst c))"
    using recurse_calls_loops by blast
  have 4: "snd ` set pending \<subseteq> dh_loops (fst (recurse ptn fs st pending))"
    by (rule recurse_marks_pending)
  have 5: "distinct (map call_path (recurse_calls ptn fs st pending))"
    by (rule recurse_calls_distinct)
  have 6: "no_empty_names fs \<longrightarrow>
        distinct (map (call_path \<circ> snd) (walk_calls ptn fs d (st, path, inode)))"
    using walk_paths_distinct by blast
  show ?thesis by (intro conjI 1 2 3 4 5 6)
qed

lemma demo_fs_names: "no_empty_names demo_fs"
  by (auto simp: no_empty_names_def demo_fs_def fs_of_dirs_def demo_dir_def dir_ent_def
      split: if_splits)

theorem descent_once_per_path_witness:
  "''/a'' \<in> dh_loops (fst ((DeviceHelper_new ''/dev/sda'')\<lparr>dh_loops := {''/a''}\<rparr>, []))
   \<and> recurse ''2'' demo_fs ((DeviceHelper_new ''/dev/sda'')\<lparr>dh_loops := {''/a''}\<rparr>, []) [(5, ''/a'')] =
       ((DeviceHelper_new ''/dev/sda'')\<lparr>dh_loops := {''/a''}\<rparr>, [])
   \<and> ''/a'' \<notin> dh_loops (fst (DeviceHelper_new ''/dev/sda'', []))
   \<and> recurse_calls ''2'' demo_fs (DeviceHelper_new ''/dev/sda'', []) [(5, ''/a''), (7, ''/a'')] =
       [((DeviceHelper_new ''/dev/sda'', []), ''/a'', 5)]
   \<and> ((DeviceHelper_new ''/dev/sda'', []), ''/a'', 5) \<in>
       set (recurse_calls ''2'' demo_fs (DeviceHelper_new ''/dev/sda'', []) [(5, ''/a''), (7, ''/a'')])
   \<and> call_path ((DeviceHelper_new ''/dev/sda'', []), ''/a'', 5) \<notin>
       dh_loops (DeviceHelper_new ''/dev/sda'')
   \<and> no_empty_names demo_fs
   \<and> distinct (map (call_path \<circ> snd)
        (walk_calls ''2'' demo_fs 0 ((DeviceHelper_new ''/dev/sda'', []), ''/'', 0)))"
proof -
  let ?dh = "DeviceHelper_new ''/dev/sda''"
  note A = descent_once_per_path[where st = "(?dh\<lparr>dh_loops := {''/a''}\<rparr>, [])"
      and leaf = "''/a''" and ino = 5 and rest = "[]" and ptn = "''2''" and fs = demo_fs]
  note B = descent_once_per_path[where st = "(?dh, [])" and leaf = "''/a''" and ino = 5
      and ino' = 7 and rest = "[]" and ptn = "''2''" and fs = demo_fs
      and pending = "[(5, ''/a''), (7, ''/a'')]" and c = "((?dh, []), ''/a'', 5)"
      and d = 0 and path = "''/''" and inode = 0]
  have a: "''/a'' \<in> dh_loops (fst (?dh\<lparr>dh_loops := {''/a''}\<rparr>, []))" by simp
  have b: "''/a'' \<notin> dh_loops (fst (?dh, []))" by (simp add: DeviceHelper_new_def)
  note A1 = A[THEN conjunct1, rule_format, OF a, THEN conjunct1]
  have 1: "recurse ''2'' demo_fs (?dh\<lparr>dh_loops := {''/a''}\<rparr>, []) [(5, ''/a'')] =
       (?dh\<lparr>dh_loops := {''/a''}\<rparr>, [])"
    using A1 by simp
  have 2: "recurse_calls ''2'' demo_fs (?dh, []) [(5, ''/a''), (7, ''/a'')] =
       [((?dh, []), ''/a'', 5)]"
    by (rule B[THEN conjunct2, THEN conjunct1, rule_format, OF b, THEN conjunct2])
  have 3: "((?dh, []), ''/a'', 5) \<in>
       set (recurse_calls ''2'' demo_fs (?dh, []) [(5, ''/a''), (7, ''/a'')])"
    unfolding 2 by simp
  have 4: "call_path ((?dh, []), ''/a'', 5) \<notin> dh_loops ?dh"
    using B[THEN conjunct2, THEN conjunct2, THEN conjunct1, rule_format, OF 3] by simp
  have 5: "distinct (map (call_path \<circ> snd)
        (walk_calls ''2'' demo_fs 0 ((?dh, []), ''/'', 0)))"
    by (rule B[THEN conjunct2, THEN conjunct2, THEN conjunct2, THEN conjunct2, THEN conjunct2,
          rule_format, OF demo_fs_names])
  show ?thesis by (intro conjI a b 1 2 3 4 5 demo_fs_names)
qed

subsection \<open>Opening the device\<close>

lemma later_opens:
  "fold (\<lambda>t d. snd (DeviceHelper_open t d)) tsks (snd (DeviceHelper_open tsk dh)) =
     snd (DeviceHelper_open tsk dh)"
proof (induction tsks)
  case Nil
  then show ?case by simp
next
  case (Cons t tsks)
  have "snd (DeviceHelper_open t (snd (DeviceHelper_open tsk dh))) = snd (DeviceHelper_open tsk dh)"
    by (simp add: DeviceHelper_open_def split: option.splits)
  with Cons show ?case by simp
qed

text \<open>
  C9. Whatever the first call of \<^verbatim>\<open>open\<close> found, the helper it leaves has \<^verbatim>\<open>opened_\<close> set
  and holds the outcome in \<^verbatim>\<open>opened_result_\<close>; a later call on this helper returns the same
  outcome and the same helper, whatever the library would answer then (\<open>tsk'\<close> is any
  library), and so does every call after any number of calls: the image and the volume
  are not opened again. On a new helper the outcome is
  that of opening the image and then the volume.
\<close>

theorem open_attempted_once:
  "DeviceHelper_open tsk' (snd (DeviceHelper_open tsk dh)) = DeviceHelper_open tsk dh
   \<and> DeviceHelper_open tsk'
        (fold (\<lambda>t d. snd (DeviceHelper_open t d)) tsks (snd (DeviceHelper_open tsk dh))) =
       DeviceHelper_open tsk dh
   \<and> dh_opened (snd (DeviceHelper_open tsk dh))
   \<and> dh_opened_result (snd (DeviceHelper_open tsk dh)) = fst (DeviceHelper_open tsk dh)
   \<and> fst (DeviceHelper_open tsk (DeviceHelper_new device_path)) =
       (case tsk_img_open tsk device_path of
          None \<Rightarrow> False
        | Some img \<Rightarrow> (case img_vs_open img of None \<Rightarrow> False | Some vol \<Rightarrow> True))"
  unfolding later_opens
  by (simp add: DeviceHelper_open_def DeviceHelper_new_def split: option.splits)

subsection \<open>The partition listing\<close>

lemma device_partitions:
  "partitions (device_tsk fs) (DeviceHelper_new ''/dev/sda'') =
     ((DeviceHelper_new ''/dev/sda'')\<lparr>dh_opened := True,
         dh_image := Some \<lparr>img_vs_open = Some (device_vs fs)\<rparr>,
         dh_volume := Some (device_vs fs), dh_opened_result := True\<rparr>,
      [raw_part, device_part fs])"
  by (simp add: partitions_def DeviceHelper_open_def DeviceHelper_new_def device_tsk_def
      device_vs_def List.map_filter_simps)

lemma to_string_small: "to_string 1 = ''1''" "to_string (Suc 0) = ''1''" "to_string 2 = ''2''"
  by (simp_all add: to_string_def dec_nat.simps digit_char_def)

lemma genDevicePartitions_rows:
  "genDevicePartitions tsk context =
     concat (map (\<lambda>dev. map (partition_row tsk dev (fst (partitions tsk (DeviceHelper_new dev))))
                            (snd (partitions tsk (DeviceHelper_new dev))))
                 (constraints_device context))"
  by (simp add: genDevicePartitions_def case_prod_unfold)

lemma demo_partitions:
  "partitions demo_tsk (DeviceHelper_new ''/dev/sda'') =
     ((DeviceHelper_new ''/dev/sda'')\<lparr>dh_opened := True,
         dh_image := Some \<lparr>img_vs_open = Some demo_vs\<rparr>, dh_volume := Some demo_vs,
         dh_opened_result := True\<rparr>,
      [raw_part, demo_part])"
  by (simp add: device_partitions demo_tsk_def demo_vs_def demo_part_def)

text \<open>
  C5. Every record of the partition listing is the row of a partition of one of the
  devices. In the row of a partition whose filesystem does not open, \<^verbatim>\<open>inodes\<close> is the text
  \<^verbatim>\<open>-1\<close>, \<^verbatim>\<open>offset\<close> is the start of the partition multiplied by the block size of the
  volume (the 64-bit product, that is the product modulo \<open>2 ^ 64\<close>), \<^verbatim>\<open>blocks_size\<close> is the
  block size of the volume, \<^verbatim>\<open>blocks\<close> is the length of the partition and \<^verbatim>\<open>flags\<close> are the
  flags of the partition. When the filesystem opens, \<^verbatim>\<open>type\<close>, \<^verbatim>\<open>flags\<close>, \<^verbatim>\<open>offset\<close>,
  \<^verbatim>\<open>blocks_size\<close>, \<^verbatim>\<open>blocks\<close> and \<^verbatim>\<open>inodes\<close> are those of the filesystem.
\<close>

theorem partition_record_fields:
  "(part_fs_open part = None \<longrightarrow>
      partition_row tsk dev dh part ''inodes'' = Some ''-1''
      \<and> partition_row tsk dev dh part ''offset'' =
          Some (BIGINT (uint (part_getStart part * ucast (getVolume_getBlockSize dh))))
      \<and> partition_row tsk dev dh part ''offset'' =
          Some (BIGINT ((uint (part_getStart part) * uint (getVolume_getBlockSize dh)) mod 2 ^ 64))
      \<and> partition_row tsk dev dh part ''blocks_size'' =
          Some (BIGINT (uint (getVolume_getBlockSize dh)))
      \<and> partition_row tsk dev dh part ''blocks'' = Some (BIGINT (uint (part_getLen part)))
      \<and> partition_row tsk dev dh part ''flags'' = Some (INTEGER (uint (part_getFlags part))))
   \<and> (part_fs_open part = Some fs \<longrightarrow>
      partition_row tsk dev dh part ''type'' = Some (tsk_typeToName tsk (fs_getFsType fs))
      \<and> partition_row tsk dev dh part ''flags'' = Some (INTEGER (fs_getFlags fs))
      \<and> partition_row tsk dev dh part ''offset'' = Some (BIGINT (fs_getOffset fs))
      \<and> partition_row tsk dev dh part ''blocks_size'' = Some (BIGINT (fs_getBlockSize fs))
      \<and> partition_row tsk dev dh part ''blocks'' = Some (BIGINT (fs_getBlockCount fs))
      \<and> partition_row tsk dev dh part ''inodes'' = Some (BIGINT (fs_getINumCount fs)))
   \<and> (r \<in> set (genDevicePartitions tsk context) \<longrightarrow>
        (\<exists>dev part. dev \<in> set (constraints_device context)
           \<and> part \<in> set (snd (partitions tsk (DeviceHelper_new dev)))
           \<and> r = partition_row tsk dev (fst (partitions tsk (DeviceHelper_new dev))) part))"
proof -
  have "uint (part_getStart part * ucast (getVolume_getBlockSize dh)) =
        (uint (part_getStart part) * uint (getVolume_getBlockSize dh)) mod 2 ^ 64"
    by (simp add: uint_word_arith_bintrs uint_up_ucast is_up take_bit_eq_mod)
  then have fields: "(part_fs_open part = None \<longrightarrow>
      partition_row tsk dev dh part ''inodes'' = Some ''-1''
      \<and> partition_row tsk dev dh part ''offset'' =
          Some (BIGINT (uint (part_getStart part * ucast (getVolume_getBlockSize dh))))
      \<and> partition_row tsk dev dh part ''offset'' =
          Some (BIGINT ((uint (part_getStart part) * uint (getVolume_getBlockSize dh)) mod 2 ^ 64))
      \<and> partition_row tsk dev dh part ''blocks_size'' =
          Some (BIGINT (uint (getVolume_getBlockSize dh)))
      \<and> partition_row tsk dev dh part ''blocks'' = Some (BIGINT (uint (part_getLen part)))
      \<and> partition_row tsk dev dh part ''flags'' = Some (INTEGER (uint (part_getFlags part))))
   \<and> (part_fs_open part = Some fs \<longrightarrow>
      partition_row tsk dev dh part ''type'' = Some (tsk_typeToName tsk (fs_getFsType fs))
      \<and> partition_row tsk dev dh part ''flags'' = Some (INTEGER (fs_getFlags fs))
      \<and> partition_row tsk dev dh part ''offset'' = Some (BIGINT (fs_getOffset fs))
      \<and> partition_row tsk dev dh part ''blocks_size'' = Some (BIGINT (fs_getBlockSize fs))
      \<and> partition_row tsk dev dh part ''blocks'' = Some (BIGINT (fs_getBlockCount fs))
      \<and> partition_row tsk dev dh part ''inodes'' = Some (BIGINT (fs_getINumCount fs)))"
    by (simp add: partition_row_def Let_def)
  have listing: "r \<in> set (genDevicePartitions tsk context) \<longrightarrow>
        (\<exists>dev part. dev \<in> set (constraints_device context)
           \<and> part \<in> set (snd (partitions tsk (DeviceHelper_new dev)))
           \<and> r = partition_row tsk dev (fst (partitions tsk (DeviceHelper_new dev))) part)"
    unfolding genDevicePartitions_rows by auto
  from fields listing show ?thesis by (intro conjI) blast+
qed

theorem partition_record_fields_witness:
  "part_fs_open raw_part = None
   \<and> partition_row demo_tsk ''/dev/sda'' (fst (partitions demo_tsk (DeviceHelper_new ''/dev/sda'')))
        raw_part ''inodes'' = Some ''-1''
   \<and> partition_row demo_tsk ''/dev/sda'' (fst (partitions demo_tsk (DeviceHelper_new ''/dev/sda'')))
        raw_part ''offset'' = Some ''1048576''
   \<and> partition_row demo_tsk ''/dev/sda'' (fst (partitions demo_tsk (DeviceHelper_new ''/dev/sda'')))
        raw_part ''blocks'' = Some ''4096''
   \<and> partition_row demo_tsk ''/dev/sda'' (fst (partitions demo_tsk (DeviceHelper_new ''/dev/sda'')))
        raw_part ''flags'' = Some ''6''
   \<and> part_fs_open demo_part = Some demo_fs
   \<and> partition_row demo_tsk ''/dev/sda'' (fst (partitions demo_tsk (DeviceHelper_new ''/dev/sda'')))
        demo_part ''type'' = Some ''ext4''
   \<and> partition_row demo_tsk ''/dev/sda'' (fst (partitions demo_tsk (DeviceHelper_new ''/dev/sda'')))
        demo_part ''blocks_size'' = Some ''4096''
   \<and> partition_row demo_tsk ''/dev/sda'' (fst (partitions demo_tsk (DeviceHelper_new ''/dev/sda'')))
        demo_part ''inodes'' = Some ''0''
   \<and> partition_row demo_tsk ''/dev/sda'' (fst (partitions demo_tsk (DeviceHelper_new ''/dev/sda'')))
        raw_part \<in> set (genDevicePartitions demo_tsk
          \<lparr>constraints_device = [''/dev/sda''], constraints_partition = [],
           constraints_path = [], constraints_inode = []\<rparr>)"
proof -
  let ?dh = "fst (partitions demo_tsk (DeviceHelper_new ''/dev/sda''))"
  have bs: "getVolume_getBlockSize ?dh = 512"
    by (simp add: demo_partitions getVolume_getBlockSize_def demo_vs_def device_vs_def)
  have a: "part_fs_open raw_part = None" by (simp add: raw_part_def)
  have b: "part_fs_open demo_part = Some demo_fs" by (simp add: demo_part_def device_part_def)
  note A = partition_record_fields[where part = raw_part and tsk = demo_tsk
      and dev = "''/dev/sda''" and dh = ?dh, THEN conjunct1, rule_format, OF a]
  note B = partition_record_fields[where part = demo_part and tsk = demo_tsk
      and dev = "''/dev/sda''" and dh = ?dh and fs = demo_fs,
      THEN conjunct2, THEN conjunct1, rule_format, OF b]
  have n: "BIGINT 1048576 = ''1048576''" "BIGINT 4096 = ''4096''" "INTEGER 6 = ''6''"
    "BIGINT 0 = ''0''"
    by (simp_all add: BIGINT_def INTEGER_def lexical_cast_def dec_nat.simps digit_char_def)
  have off: "BIGINT (uint (part_getStart raw_part * ucast (getVolume_getBlockSize ?dh))) =
             ''1048576''"
    unfolding bs by (simp add: raw_part_def n)
  have blk: "BIGINT (uint (part_getLen raw_part)) = ''4096''"
    by (simp add: raw_part_def n)
  have flg: "INTEGER (uint (part_getFlags raw_part)) = ''6''"
    by (simp add: raw_part_def n)
  have ty: "tsk_typeToName demo_tsk (fs_getFsType demo_fs) = ''ext4''"
    by (simp add: demo_tsk_def device_tsk_def)
  have fbs: "BIGINT (fs_getBlockSize demo_fs) = ''4096''"
    and ino: "BIGINT (fs_getINumCount demo_fs) = ''0''"
    by (simp_all add: demo_fs_def fs_of_dirs_def n)
  have listed: "partition_row demo_tsk ''/dev/sda'' ?dh raw_part \<in>
      set (genDevicePartitions demo_tsk
          \<lparr>constraints_device = [''/dev/sda''], constraints_partition = [],
           constraints_path = [], constraints_inode = []\<rparr>)"
    by (simp add: genDevicePartitions_rows demo_partitions)
  from A B listed show ?thesis
    by (simp add: a b off blk flg ty fbs ino)
qed

lemma demo_partition_listing:
  "map (\<lambda>r. (r ''partition'', r ''type'', r ''inodes''))
     (genDevicePartitions demo_tsk
        \<lparr>constraints_device = [''/dev/sda'', ''/dev/sdb''], constraints_partition = [],
         constraints_path = [], constraints_inode = []\<rparr>) =
     [(Some ''1'', Some ''meta'', Some ''-1''), (Some ''2'', Some ''ext4'', Some ''0'')]"
proof -
  have sdb: "partitions demo_tsk (DeviceHelper_new ''/dev/sdb'') =
     ((DeviceHelper_new ''/dev/sdb'')\<lparr>dh_opened := True, dh_opened_result := False\<rparr>, [])"
    by (simp add: partitions_def DeviceHelper_open_def DeviceHelper_new_def demo_tsk_def
        device_tsk_def)
  have n: "BIGINT 0 = ''0''"
    by (simp add: BIGINT_def lexical_cast_def dec_nat.simps digit_char_def)
  have ty: "tsk_typeToName demo_tsk t = ''ext4''" for t
    by (simp add: demo_tsk_def device_tsk_def)
  show ?thesis
    by (simp add: genDevicePartitions_def demo_partitions sdb partition_row_def Let_def
        raw_part_def demo_part_def device_part_def to_string_small
        TSK_VS_PART_FLAG_META_def TSK_VS_PART_FLAG_UNALLOC_def ty
        demo_fs_def fs_of_dirs_def n)
qed


text \<open>
  C6. In the row of a partition whose filesystem does not open, the type is \<^verbatim>\<open>meta\<close> when
  the meta flag is set, whatever the unallocated flag is; \<^verbatim>\<open>unallocated\<close> when the meta
  flag is clear and the unallocated flag is set; \<^verbatim>\<open>normal\<close> when both are clear.
\<close>

theorem partition_type_priority:
  "(part_fs_open part = None \<longrightarrow> part_getFlags part AND TSK_VS_PART_FLAG_META \<noteq> 0 \<longrightarrow>
      partition_row tsk dev dh part ''type'' = Some ''meta'')
   \<and> (part_fs_open part = None \<longrightarrow> part_getFlags part AND TSK_VS_PART_FLAG_META = 0 \<longrightarrow>
        part_getFlags part AND TSK_VS_PART_FLAG_UNALLOC \<noteq> 0 \<longrightarrow>
      partition_row tsk dev dh part ''type'' = Some ''unallocated'')
   \<and> (part_fs_open part = None \<longrightarrow> part_getFlags part AND TSK_VS_PART_FLAG_META = 0 \<longrightarrow>
        part_getFlags part AND TSK_VS_PART_FLAG_UNALLOC = 0 \<longrightarrow>
      partition_row tsk dev dh part ''type'' = Some ''normal'')"
  by (simp add: partition_row_def Let_def)

theorem partition_type_priority_witness:
  "part_fs_open raw_part = None
   \<and> part_getFlags raw_part AND TSK_VS_PART_FLAG_META \<noteq> 0
   \<and> part_getFlags raw_part AND TSK_VS_PART_FLAG_UNALLOC \<noteq> 0
   \<and> partition_row demo_tsk ''/dev/sda'' (DeviceHelper_new ''/dev/sda'') raw_part ''type'' =
       Some ''meta''
   \<and> part_getFlags (raw_part\<lparr>part_getFlags := 2\<rparr>) AND TSK_VS_PART_FLAG_META = 0
   \<and> part_getFlags (raw_part\<lparr>part_getFlags := 2\<rparr>) AND TSK_VS_PART_FLAG_UNALLOC \<noteq> 0
   \<and> partition_row demo_tsk ''/dev/sda'' (DeviceHelper_new ''/dev/sda'')
        (raw_part\<lparr>part_getFlags := 2\<rparr>) ''type'' = Some ''unallocated''
   \<and> part_getFlags (raw_part\<lparr>part_getFlags := 1\<rparr>) AND TSK_VS_PART_FLAG_META = 0
   \<and> part_getFlags (raw_part\<lparr>part_getFlags := 1\<rparr>) AND TSK_VS_PART_FLAG_UNALLOC = 0
   \<and> partition_row demo_tsk ''/dev/sda'' (DeviceHelper_new ''/dev/sda'')
        (raw_part\<lparr>part_getFlags := 1\<rparr>) ''type'' = Some ''normal''"
proof -
  let ?dh = "DeviceHelper_new ''/dev/sda''"
  have f: "part_fs_open (raw_part\<lparr>part_getFlags := x\<rparr>) = None" for x
    by (simp add: raw_part_def)
  have f0: "part_fs_open raw_part = None" by (simp add: raw_part_def)
  have m6: "part_getFlags raw_part AND TSK_VS_PART_FLAG_META \<noteq> 0"
    and u6: "part_getFlags raw_part AND TSK_VS_PART_FLAG_UNALLOC \<noteq> 0"
    by (simp_all add: raw_part_def TSK_VS_PART_FLAG_META_def TSK_VS_PART_FLAG_UNALLOC_def)
  have m2: "part_getFlags (raw_part\<lparr>part_getFlags := 2\<rparr>) AND TSK_VS_PART_FLAG_META = 0"
    and u2: "part_getFlags (raw_part\<lparr>part_getFlags := 2\<rparr>) AND TSK_VS_PART_FLAG_UNALLOC \<noteq> 0"
    by (simp_all add: TSK_VS_PART_FLAG_META_def TSK_VS_PART_FLAG_UNALLOC_def)
  have m1: "part_getFlags (raw_part\<lparr>part_getFlags := 1\<rparr>) AND TSK_VS_PART_FLAG_META = 0"
    and u1: "part_getFlags (raw_part\<lparr>part_getFlags := 1\<rparr>) AND TSK_VS_PART_FLAG_UNALLOC = 0"
    by (simp_all add: TSK_VS_PART_FLAG_META_def TSK_VS_PART_FLAG_UNALLOC_def)
  note T6 = partition_type_priority[where part = raw_part and tsk = demo_tsk
      and dev = "''/dev/sda''" and dh = ?dh, THEN conjunct1, rule_format, OF f0 m6]
  note T2 = partition_type_priority[where part = "raw_part\<lparr>part_getFlags := 2\<rparr>"
      and tsk = demo_tsk and dev = "''/dev/sda''" and dh = ?dh,
      THEN conjunct2, THEN conjunct1, rule_format, OF f m2 u2]
  note T1 = partition_type_priority[where part = "raw_part\<lparr>part_getFlags := 1\<rparr>"
      and tsk = demo_tsk and dev = "''/dev/sda''" and dh = ?dh,
      THEN conjunct2, THEN conjunct2, rule_format, OF f m1 u1]
  show ?thesis by (intro conjI f0 m6 u6 T6 m2 u2 T2 m1 u1 T1)
qed

subsection \<open>The file listing\<close>

lemma device_file_listing:
  "genDeviceFile (device_tsk fs)
     \<lparr>constraints_device = [''/dev/sda''], constraints_partition = [''2''],
      constraints_path = paths, constraints_inode = inodes\<rparr> =
     (let st = (DeviceHelper_new ''/dev/sda'')\<lparr>dh_opened := True,
                  dh_image := Some \<lparr>img_vs_open = Some (device_vs fs)\<rparr>,
                  dh_volume := Some (device_vs fs), dh_opened_result := True\<rparr>;
          walked = (if inodes = [] \<and> paths = []
                    then (resetStack (fst (generateFiles ''2'' fs (st, []) ''/'' 0)),
                          snd (generateFiles ''2'' fs (st, []) ''/'' 0))
                    else (st, []));
          results = fold (lookup_path (fst walked) ''2'' fs) paths (snd walked)
      in case fold_fault (lookup_inode (fst walked) ''2'' fs) inodes results of
           Inl e \<Rightarrow> Inl e
         | Inr results \<Rightarrow> Inr \<lparr>logged = [], rows = results\<rparr>)"
  by (simp add: genDeviceFile_def genDeviceFile_device_def device_partitions
      genDeviceFile_partition_def to_string_small raw_part_def device_part_def Let_def
      split: sum.splits)

lemma demo_file_listing:
  "map_sum id (\<lambda>out. map (\<lambda>r. (r ''path'', r ''inode'')) (rows out))
     (genDeviceFile demo_tsk
        \<lparr>constraints_device = [''/dev/sda''], constraints_partition = [''2''],
         constraints_path = [], constraints_inode = []\<rparr>) =
     Inr [(Some ''/x'', Some ''9''), (Some ''/y'', Some ''3'')]"
proof -
  have n: "BIGINT 9 = ''9''" "BIGINT 3 = ''3''"
    by (simp_all add: BIGINT_def lexical_cast_def dec_nat.simps digit_char_def)
  have w: "map (\<lambda>r. (r ''path'', r ''inode''))
             (snd (generateFiles ''2'' demo_fs (dh, []) ''/'' 0)) =
           [(Some ''/x'', Some ''9''), (Some ''/y'', Some ''3'')]"
    if "dh_stack dh = 0" "dh_loops dh = {}" for dh
    using that
    by (simp add: generateFiles.simps demo_fs_def fs_of_dirs_def dir_entries_def dir_entry_def
        demo_dir_def dir_ent_def TSK_FS_ISDOT_def path_append_def loops_insert_def
        generateFile_def Let_def n)
  show ?thesis
    unfolding demo_tsk_def device_file_listing
    by (simp add: Let_def w DeviceHelper_new_def split: sum.splits)
qed

text \<open>
  C8. Without a device constraint, or with a number of partition constraints other than
  one, the query returns no row, having logged the diagnostic, and nothing is raised.
\<close>

theorem file_listing_requires_filters:
  "constraints_device context = [] \<or> length (constraints_partition context) \<noteq> 1 \<Longrightarrow>
     genDeviceFile tsk context =
       Inr \<lparr>logged = [''Device files require at least one device and a single partition''],
            rows = []\<rparr>"
  by (auto simp: genDeviceFile_def)

theorem file_listing_requires_filters_witness:
  "constraints_device \<lparr>constraints_device = [], constraints_partition = [''2''],
      constraints_path = [], constraints_inode = []\<rparr> = []
   \<and> genDeviceFile demo_tsk \<lparr>constraints_device = [], constraints_partition = [''2''],
      constraints_path = [], constraints_inode = []\<rparr> =
       Inr \<lparr>logged = [''Device files require at least one device and a single partition''],
            rows = []\<rparr>
   \<and> length (constraints_partition \<lparr>constraints_device = [''/dev/sda''],
      constraints_partition = [''1'', ''2''], constraints_path = [], constraints_inode = []\<rparr>) = 2
   \<and> genDeviceFile demo_tsk \<lparr>constraints_device = [''/dev/sda''],
      constraints_partition = [''1'', ''2''], constraints_path = [], constraints_inode = []\<rparr> =
       Inr \<lparr>logged = [''Device files require at least one device and a single partition''],
            rows = []\<rparr>"
  using file_listing_requires_filters[of "\<lparr>constraints_device = [], constraints_partition = [''2''],
      constraints_path = [], constraints_inode = []\<rparr>" demo_tsk]
    file_listing_requires_filters[of "\<lparr>constraints_device = [''/dev/sda''],
      constraints_partition = [''1'', ''2''], constraints_path = [], constraints_inode = []\<rparr>" demo_tsk]
  by simp

lemma safeStrtol_failure: "\<not> fst (safeStrtol rep base) \<Longrightarrow> snd (safeStrtol rep base) = 0"
  by (auto simp: safeStrtol_def Let_def split: option.splits if_splits)

lemma safeStrtol_zero: "safeStrtol ''0'' 10 = (True, 0)"
  by (simp add: safeStrtol_def digit_value_def LONG_MAX_def LONG_MIN_def)

lemma fold_fault_append:
  "fold_fault f (xs @ ys) s =
     (case fold_fault f xs s of Inl e \<Rightarrow> Inl e | Inr s' \<Rightarrow> fold_fault f ys s')"
  by (induction xs arbitrary: s) (auto split: sum.splits)

text \<open>
  A string that does not parse is looked up as the string \<^verbatim>\<open>0\<close> is; when inode 0 does not
  open the lookup leaves the rows as they are.
\<close>

lemma unparsed_inode_lookup:
  assumes "\<not> fst (safeStrtol inode 10)"
  shows "lookup_inode dh address fs inode results = lookup_inode dh address fs ''0'' results"
    and "fs_file_open_inum fs 0 = None \<Longrightarrow> lookup_inode dh address fs inode results = Inr results"
  using safeStrtol_failure[OF assms] by (simp_all add: lookup_inode_def safeStrtol_zero)

lemma inode_fs_lookups:
  "lookup_inode dh address inode_fs ''abc'' results =
     Inr (generateFile dh address mft_file ''$MFT'' results)"
  "lookup_inode dh address inode_fs ''0'' results =
     Inr (generateFile dh address mft_file ''$MFT'' results)"
  "lookup_inode dh address inode_fs ''9'' results =
     Inr (generateFile dh address (named_file 9 ''x'') ''x'' results)"
  by (simp_all add: safeStrtol_def digit_value_def LONG_MAX_def LONG_MIN_def lookup_inode_def
      inode_fs_def getName2_def mft_file_def named_file_def)

lemma named_file_row:
  "column ''inode'' (generateFile dh address (named_file 0 name) path []) = [Some ''0'']"
  "column ''inode'' (generateFile dh address (named_file 9 name) path []) = [Some ''9'']"
  "column ''path'' (generateFile dh address (named_file ino name) path []) = [Some path]"
  by (simp_all add: column_def generateFile_def named_file_def Let_def BIGINT_def
      lexical_cast_def dec_nat.simps digit_char_def)

text \<open>
  C3. The status \<^verbatim>\<open>safeStrtol\<close> returns is not looked at, so the loop goes on with the
  value \<^verbatim>\<open>meta\<close> was initialised with: the string \<^verbatim>\<open>abc\<close> does not parse, the file at inode
  0 is opened for it, and on a filesystem where inode 0 opens (the master file table) the
  query with this one inode constraint returns the record of inode 0, as the query for the
  string \<^verbatim>\<open>0\<close> does; asked for \<^verbatim>\<open>9\<close> and \<^verbatim>\<open>abc\<close> it returns two records, where the claim
  has the string skipped, with no open and no record.
\<close>

theorem unparsed_inode_yields_record:
  "\<not> fst (safeStrtol ''abc'' 10)
   \<and> fs_file_open_inum inode_fs (word_of_int (snd (safeStrtol ''abc'' 10))) = Some mft_file
   \<and> genDeviceFile (device_tsk inode_fs)
        \<lparr>constraints_device = [''/dev/sda''], constraints_partition = [''2''],
         constraints_path = [], constraints_inode = [''abc'']\<rparr> =
       Inr \<lparr>logged = [],
            rows = generateFile (DeviceHelper_new ''/dev/sda'') ''2'' mft_file ''$MFT'' []\<rparr>
   \<and> column ''inode'' (generateFile (DeviceHelper_new ''/dev/sda'') ''2'' mft_file ''$MFT'' []) =
       [Some ''0'']
   \<and> column ''path'' (generateFile (DeviceHelper_new ''/dev/sda'') ''2'' mft_file ''$MFT'' []) =
       [Some ''$MFT'']
   \<and> genDeviceFile (device_tsk inode_fs)
        \<lparr>constraints_device = [''/dev/sda''], constraints_partition = [''2''],
         constraints_path = [], constraints_inode = [''abc'']\<rparr> =
       genDeviceFile (device_tsk inode_fs)
        \<lparr>constraints_device = [''/dev/sda''], constraints_partition = [''2''],
         constraints_path = [], constraints_inode = [''0'']\<rparr>
   \<and> map_sum id (column ''inode'' \<circ> rows)
        (genDeviceFile (device_tsk inode_fs)
           \<lparr>constraints_device = [''/dev/sda''], constraints_partition = [''2''],
            constraints_path = [], constraints_inode = [''9'', ''abc'']\<rparr>) =
       Inr [Some ''9'', Some ''0'']"
proof -
  let ?dh = "DeviceHelper_new ''/dev/sda''"
  have p: "\<not> fst (safeStrtol ''abc'' 10)"
    by (simp add: safeStrtol_def digit_value_def)
  have z: "snd (safeStrtol ''abc'' 10) = 0"
    by (rule safeStrtol_failure[OF p])
  have o: "fs_file_open_inum inode_fs (word_of_int (snd (safeStrtol ''abc'' 10))) = Some mft_file"
    unfolding z by (simp add: inode_fs_def)
  have q1: "genDeviceFile (device_tsk inode_fs)
        \<lparr>constraints_device = [''/dev/sda''], constraints_partition = [''2''],
         constraints_path = [], constraints_inode = [''abc'']\<rparr> =
       Inr \<lparr>logged = [], rows = generateFile ?dh ''2'' mft_file ''$MFT'' []\<rparr>"
    unfolding device_file_listing
    by (simp add: Let_def inode_fs_lookups generateFile_def DeviceHelper_new_def mft_file_def
        named_file_def)
  have q0: "genDeviceFile (device_tsk inode_fs)
        \<lparr>constraints_device = [''/dev/sda''], constraints_partition = [''2''],
         constraints_path = [], constraints_inode = [''0'']\<rparr> =
       Inr \<lparr>logged = [], rows = generateFile ?dh ''2'' mft_file ''$MFT'' []\<rparr>"
    unfolding device_file_listing
    by (simp add: Let_def inode_fs_lookups generateFile_def DeviceHelper_new_def mft_file_def
        named_file_def)
  have i: "column ''inode'' (generateFile ?dh ''2'' mft_file ''$MFT'' []) = [Some ''0'']"
    and n: "column ''path'' (generateFile ?dh ''2'' mft_file ''$MFT'' []) = [Some ''$MFT'']"
    unfolding mft_file_def by (rule named_file_row)+
  have two: "column ''inode''
       (generateFile dh ''2'' mft_file ''$MFT'' (generateFile dh ''2'' (named_file 9 ''x'') ''x'' [])) =
       [Some ''9'', Some ''0'']" for dh
  proof -
    have "generateFile dh ''2'' mft_file ''$MFT''
            (generateFile dh ''2'' (named_file 9 ''x'') ''x'' []) =
          generateFile dh ''2'' (named_file 9 ''x'') ''x'' [] @
          generateFile dh ''2'' (named_file 0 ''$MFT'') ''$MFT'' []"
      unfolding mft_file_def by (rule generateFile_append)
    then have "column ''inode''
          (generateFile dh ''2'' mft_file ''$MFT''
             (generateFile dh ''2'' (named_file 9 ''x'') ''x'' [])) =
          column ''inode'' (generateFile dh ''2'' (named_file 9 ''x'') ''x'' []) @
          column ''inode'' (generateFile dh ''2'' (named_file 0 ''$MFT'') ''$MFT'' [])"
      by (simp only: column_def map_append)
    then show ?thesis
      by (simp only: named_file_row append_Cons append_Nil)
  qed
  have q2: "map_sum id (column ''inode'' \<circ> rows)
        (genDeviceFile (device_tsk inode_fs)
           \<lparr>constraints_device = [''/dev/sda''], constraints_partition = [''2''],
            constraints_path = [], constraints_inode = [''9'', ''abc'']\<rparr>) =
       Inr [Some ''9'', Some ''0'']"
    unfolding device_file_listing
    by (simp add: Let_def inode_fs_lookups two)
  show ?thesis
    by (intro conjI p o q1 i n q2) (simp only: q1 q0)
qed

text \<open>
  C4. A file that opens by its inode with metadata but with no parent name: the lookup
  dereferences the null pointer \<^verbatim>\<open>getName2(0)\<close> returns, where the claim has an empty
  path and a record. (With no metadata the path is empty and the record is produced; with
  a parent name the path is that name.)
\<close>

theorem inode_lookup_without_parent_name_faults:
  "safeStrtol ''9'' 10 = (True, 9)
   \<and> fs_file_open_inum no_name2_fs 9 = Some (dir_ent TSK_FS_META_TYPE_REG 9 ''x'')
   \<and> getName2 (the (file_getMeta (dir_ent TSK_FS_META_TYPE_REG 9 ''x''))) 0 = None
   \<and> lookup_inode (DeviceHelper_new ''/dev/sda'') ''2'' no_name2_fs ''9'' [] =
       Inl NullPointerDereference
   \<and> genDeviceFile (device_tsk no_name2_fs)
        \<lparr>constraints_device = [''/dev/sda''], constraints_partition = [''2''],
         constraints_path = [], constraints_inode = [''9'']\<rparr> =
       Inl NullPointerDereference"
  unfolding device_file_listing
  by (simp add: safeStrtol_def digit_value_def LONG_MAX_def LONG_MIN_def lookup_inode_def
      no_name2_fs_def getName2_def dir_ent_def Let_def)

lemma inode_lookup_other_cases:
  "fs_file_open_inum fs (word_of_int (snd (safeStrtol inode 10))) = Some file \<Longrightarrow>
     (file_getMeta file = None \<longrightarrow>
        lookup_inode dh address fs inode results = Inr (generateFile dh address file [] results))
     \<and> (\<forall>meta name names. file_getMeta file = Some meta \<longrightarrow> meta_name2 meta = name # names \<longrightarrow>
        lookup_inode dh address fs inode results = Inr (generateFile dh address file name results))"
  by (simp add: lookup_inode_def getName2_def)

end
